theory Spec2Isabelle
  imports Main
begin

section \<open>Python values, errors and strings\<close>

text \<open>
  The program is \<^verbatim>\<open>pywingetupgrader.py\<close>. Its strings are Python \<^verbatim>\<open>str\<close> values; here a
  string is a HOL \<^typ>\<open>string\<close>, so a character is a code point below 256 and the character
  classes of Python (\<^verbatim>\<open>isspace\<close>, \<^verbatim>\<open>isprintable\<close>, \<^verbatim>\<open>\d\<close>, \<^verbatim>\<open>lower\<close>) are written out on
  that range. Every exception the modelled functions can raise is a value of \<open>error\<close>.
\<close>

datatype error = IndexError | KeyError | TypeError | AttributeError | ValueError

datatype pyval = StrV string | IntV int

definition ord :: "char \<Rightarrow> nat" where
  "ord c = of_char c"

text \<open>\<^verbatim>\<open>str.isspace\<close> on one character: tab to carriage return, the four separators
  0x1c..0x1f, the space, NEL (0x85) and the no-break space (0xa0).\<close>

definition isspace :: "char \<Rightarrow> bool" where
  "isspace c = (let n = ord c in (9 \<le> n \<and> n \<le> 13) \<or> (28 \<le> n \<and> n \<le> 32) \<or> n = 133 \<or> n = 160)"

text \<open>\<^verbatim>\<open>str.isprintable\<close> on one character: not a control character, not a separator
  other than the space, not the soft hyphen (0xad).\<close>

definition isprintable_char :: "char \<Rightarrow> bool" where
  "isprintable_char c = (let n = ord c in (32 \<le> n \<and> n \<le> 126) \<or> (161 \<le> n \<and> n \<noteq> 173))"

definition isprintable :: "string \<Rightarrow> bool" where
  "isprintable s = list_all isprintable_char s"

text \<open>The class \<^verbatim>\<open>\d\<close> of the regular expression, and the value of a digit.\<close>

definition isdigit :: "char \<Rightarrow> bool" where
  "isdigit c = (48 \<le> ord c \<and> ord c \<le> 57)"

definition lower_char :: "char \<Rightarrow> char" where
  "lower_char c = (let n = ord c in
     if (65 \<le> n \<and> n \<le> 90) \<or> (192 \<le> n \<and> n \<le> 222 \<and> n \<noteq> 215) then char_of (n + 32) else c)"

definition lower :: "string \<Rightarrow> string" where
  "lower s = map lower_char s"

text \<open>\<^verbatim>\<open>str.strip()\<close>: whitespace removed at both ends.\<close>

definition strip :: "string \<Rightarrow> string" where
  "strip s = rev (dropWhile isspace (rev (dropWhile isspace s)))"

text \<open>\<^verbatim>\<open>str.split()\<close> without argument: the maximal runs of non-whitespace characters.
  \<open>cur\<close> is the token being read, reversed.\<close>

fun split_ws :: "string \<Rightarrow> string \<Rightarrow> string list" where
  "split_ws cur [] = (if cur = [] then [] else [rev cur])"
| "split_ws cur (c # cs) =
     (if isspace c then (if cur = [] then split_ws [] cs else rev cur # split_ws [] cs)
      else split_ws (c # cur) cs)"

definition split :: "string \<Rightarrow> string list" where
  "split s = split_ws [] s"

text \<open>\<^verbatim>\<open>str.split(sep)\<close> for a one-character and for the two-character separator CR LF:
  every occurrence cuts, from the left; the result is never empty.\<close>

fun cons_first :: "char \<Rightarrow> string list \<Rightarrow> string list" where
  "cons_first c [] = [[c]]"
| "cons_first c (r # rs) = (c # r) # rs"

fun split_char :: "char \<Rightarrow> string \<Rightarrow> string list" where
  "split_char sep [] = [[]]"
| "split_char sep (c # cs) =
     (if c = sep then [] # split_char sep cs else cons_first c (split_char sep cs))"

fun split_crlf :: "string \<Rightarrow> string list" where
  "split_crlf [] = [[]]"
| "split_crlf [c] = [[c]]"
| "split_crlf (c # d # cs) =
     (if c = CHR 0x0D \<and> d = CHR 0x0A then [] # split_crlf cs
      else cons_first c (split_crlf (d # cs)))"

text \<open>\<^verbatim>\<open>str.find(sub)\<close>: the index of the first occurrence, or -1.\<close>

fun find_from :: "int \<Rightarrow> string \<Rightarrow> string \<Rightarrow> int" where
  "find_from i [] sub = (if sub = [] then i else - 1)"
| "find_from i (c # cs) sub =
     (if take (length sub) (c # cs) = sub then i else find_from (i + 1) cs sub)"

definition find :: "string \<Rightarrow> string \<Rightarrow> int" where
  "find s sub = find_from 0 s sub"

text \<open>Slices \<^verbatim>\<open>s[start:end]\<close> and \<^verbatim>\<open>s[start:]\<close>: a negative index counts from the end, and
  every index is clipped to the string.\<close>

definition slice_index :: "nat \<Rightarrow> int \<Rightarrow> nat" where
  "slice_index n i = (if i < 0 then nat (max 0 (i + int n)) else min n (nat i))"

definition slice :: "string \<Rightarrow> int \<Rightarrow> int \<Rightarrow> string" where
  "slice s start end =
     (let a = slice_index (length s) start; b = slice_index (length s) end
      in take (b - a) (drop a s))"

definition slice_from :: "string \<Rightarrow> int \<Rightarrow> string" where
  "slice_from s start = drop (slice_index (length s) start) s"

section \<open>Records: insertion-ordered dictionaries\<close>

text \<open>A \<^verbatim>\<open>dict\<close> keeps its keys in insertion order; assigning to a key that exists keeps
  the key's place and replaces the value.\<close>

type_synonym pydict = "(string \<times> pyval) list"

fun setitem :: "pydict \<Rightarrow> string \<Rightarrow> pyval \<Rightarrow> pydict" where
  "setitem [] k v = [(k, v)]"
| "setitem ((k', v') # d) k v = (if k' = k then (k', v) # d else (k', v') # setitem d k v)"

definition getitem :: "pydict \<Rightarrow> string \<Rightarrow> error + pyval" where
  "getitem d k = (case map_of d k of None \<Rightarrow> Inl KeyError | Some v \<Rightarrow> Inr v)"

definition has_key :: "pydict \<Rightarrow> string \<Rightarrow> bool" where
  "has_key d k = (map_of d k \<noteq> None)"

definition keys :: "pydict \<Rightarrow> string list" where
  "keys d = map fst d"

section \<open>The table parser\<close>

text \<open>\<^verbatim>\<open>get_headers_and_their_starting_positions\<close>. \<open>rows[0]\<close> and \<open>headers[0]\<close> raise
  IndexError on an empty list.\<close>

definition header_labels :: "string \<Rightarrow> string list" where
  "header_labels header_row = filter isprintable (split header_row)"

definition get_headers_and_their_starting_positions :: "string list \<Rightarrow> error + (string \<times> int) list" where
  "get_headers_and_their_starting_positions rows =
     (case rows of
        [] \<Rightarrow> Inl IndexError
      | header_row # _ \<Rightarrow>
          (case header_labels header_row of
             [] \<Rightarrow> Inl IndexError
           | h0 # hs \<Rightarrow>
               (let first_header_offset = find header_row h0
                in Inr (map (\<lambda>h. (h, find header_row h - first_header_offset)) (h0 # hs)))))"

text \<open>The inner loop of \<^verbatim>\<open>extract_applications_from_table\<close>: a column ends where the next
  one starts, and the last column runs to the end of the row.\<close>

fun fill_record :: "(string \<times> int) list \<Rightarrow> string \<Rightarrow> pydict \<Rightarrow> pydict" where
  "fill_record [] row record = record"
| "fill_record [(key, start_pos)] row record =
     setitem record key (StrV (strip (slice_from row start_pos)))"
| "fill_record ((key, start_pos) # (key', end_pos) # rest) row record =
     fill_record ((key', end_pos) # rest) row
       (setitem record key (StrV (strip (slice row start_pos end_pos))))"

definition extract_applications_from_table :: "string \<Rightarrow> error + pydict list" where
  "extract_applications_from_table output =
     (let rows = (let ls = split_crlf output in take (length ls - 2) ls)
      in case get_headers_and_their_starting_positions rows of
           Inl e \<Rightarrow> Inl e
         | Inr headers_and_their_starting_positions \<Rightarrow>
             Inr (map (\<lambda>row. fill_record headers_and_their_starting_positions row []) (drop 2 rows)))"

section \<open>Sequencing of fallible steps\<close>

text \<open>An exception ends the computation: the first error is the result.\<close>

fun bind :: "error + 'a \<Rightarrow> ('a \<Rightarrow> error + 'b) \<Rightarrow> error + 'b" where
  "bind (Inl e) f = Inl e"
| "bind (Inr x) f = f x"

text \<open>A list comprehension \<^verbatim>\<open>[x for x in xs if p(x)]\<close> whose condition may raise.\<close>

fun filter_res :: "('a \<Rightarrow> error + bool) \<Rightarrow> 'a list \<Rightarrow> error + 'a list" where
  "filter_res p [] = Inr []"
| "filter_res p (x # xs) =
     (case p x of
        Inl e \<Rightarrow> Inl e
      | Inr b \<Rightarrow> (case filter_res p xs of
                   Inl e \<Rightarrow> Inl e
                 | Inr ys \<Rightarrow> Inr (if b then x # ys else ys)))"

section \<open>Semantic versions\<close>

text \<open>\<^verbatim>\<open>SEMVER_PATTERN = re.compile("^\d+?\.\d+?\.\d+$")\<close>, used with \<^verbatim>\<open>match\<close>: three non-empty
  runs of digits separated by dots; \<^verbatim>\<open>$\<close> also matches before one final newline. A value
  that is not a string raises TypeError.\<close>

definition digits :: "string \<Rightarrow> bool" where
  "digits s = (s \<noteq> [] \<and> list_all isdigit s)"

definition SEMVER_PATTERN_match :: "pyval \<Rightarrow> error + bool" where
  "SEMVER_PATTERN_match v =
     (case v of
        IntV _ \<Rightarrow> Inl TypeError
      | StrV s \<Rightarrow>
          Inr (case split_char CHR ''.'' s of
                 [a, b, c] \<Rightarrow>
                   digits a \<and> digits b \<and>
                   digits (if c \<noteq> [] \<and> last c = CHR 0x0A then butlast c else c)
               | _ \<Rightarrow> False))"

text \<open>\<^verbatim>\<open>int(s)\<close> on a run of digits with surrounding whitespace, which is all the program
  applies it to; anything else is a ValueError here (signs and underscores are not
  modelled).\<close>

definition int_of_str :: "string \<Rightarrow> error + int" where
  "int_of_str s =
     (let t = strip s
      in if digits t then Inr (foldl (\<lambda>a c. 10 * a + (int (ord c) - 48)) 0 t)
         else Inl ValueError)"

text \<open>\<^verbatim>\<open>major, minor, patch = v.split(".")\<close> followed by the three \<^verbatim>\<open>int\<close> calls.\<close>

definition split_version :: "pyval \<Rightarrow> error + (int \<times> int \<times> int)" where
  "split_version v =
     (case v of
        IntV _ \<Rightarrow> Inl AttributeError
      | StrV s \<Rightarrow>
          (case split_char CHR ''.'' s of
             [major, minor, patch] \<Rightarrow>
               bind (int_of_str major) (\<lambda>a.
               bind (int_of_str minor) (\<lambda>b.
               bind (int_of_str patch) (\<lambda>c. Inr (a, b, c))))
           | _ \<Rightarrow> Inl ValueError))"

section \<open>The store\<close>

text \<open>
  The records are objects: \<^verbatim>\<open>add_semver_details\<close> assigns to the dictionary it is given,
  and the lists of the program hold references to the same dictionaries. The store is
  the list of all dictionaries, a reference is an index into it, and a list of
  applications is a list of references. A reference outside the store reads as the
  empty dictionary, so every access through it raises KeyError.\<close>

type_synonym ref = nat
type_synonym heap = "pydict list"

definition deref :: "heap \<Rightarrow> ref \<Rightarrow> pydict" where
  "deref h r = (if r < length h then h ! r else [])"

section \<open>The upgrade classifier\<close>

text \<open>\<^verbatim>\<open>add_semver_details\<close> on the dictionary: its first \<^verbatim>\<open>if\<close> block, its second, and
  the two in sequence.\<close>

definition add_current_version :: "pydict \<Rightarrow> error + pydict" where
  "add_current_version app =
     bind (getitem app ''Version'') (\<lambda>version.
     bind (SEMVER_PATTERN_match version) (\<lambda>m.
     if m then
       bind (split_version version) (\<lambda>(major, minor, patch).
         Inr (setitem (setitem (setitem app
                ''current_major'' (IntV major))
                ''current_minor'' (IntV minor))
                ''current_patch'' (IntV patch)))
     else Inr app))"

definition add_available_version :: "pydict \<Rightarrow> error + pydict" where
  "add_available_version app =
     bind (getitem app ''Available'') (\<lambda>available.
     bind (SEMVER_PATTERN_match available) (\<lambda>m.
     if m then
       bind (split_version available) (\<lambda>(available_major, available_minor, available_patch).
         Inr (setitem (setitem (setitem app
                ''available_major'' (IntV available_major))
                ''available_minor'' (IntV available_minor))
                ''available_patch'' (IntV available_patch)))
     else Inr app))"

definition add_semver_details_dict :: "pydict \<Rightarrow> error + pydict" where
  "add_semver_details_dict app = bind (add_current_version app) add_available_version"

text \<open>\<^verbatim>\<open>add_semver_details\<close> writes into the object it is given and returns that object.\<close>

definition add_semver_details :: "heap \<Rightarrow> ref \<Rightarrow> error + heap" where
  "add_semver_details h app =
     bind (add_semver_details_dict (deref h app)) (\<lambda>d. Inr (h[app := d]))"

text \<open>The condition of the comprehension in \<^verbatim>\<open>get_applications_using_semver\<close>;
  \<^verbatim>\<open>or\<close> does not look at \<open>Available\<close> when \<open>Version\<close> matches.\<close>

definition uses_semver :: "pydict \<Rightarrow> error + bool" where
  "uses_semver app =
     bind (getitem app ''Version'') (\<lambda>version.
     bind (SEMVER_PATTERN_match version) (\<lambda>m.
     if m then Inr True
     else bind (getitem app ''Available'') (\<lambda>available. SEMVER_PATTERN_match available)))"

fun get_applications_using_semver :: "heap \<Rightarrow> ref list \<Rightarrow> error + (heap \<times> ref list)" where
  "get_applications_using_semver h [] = Inr (h, [])"
| "get_applications_using_semver h (app # applications) =
     (case uses_semver (deref h app) of
        Inl e \<Rightarrow> Inl e
      | Inr False \<Rightarrow> get_applications_using_semver h applications
      | Inr True \<Rightarrow>
          (case add_semver_details h app of
             Inl e \<Rightarrow> Inl e
           | Inr h1 \<Rightarrow>
               (case get_applications_using_semver h1 applications of
                  Inl e \<Rightarrow> Inl e
                | Inr (h2, rest) \<Rightarrow> Inr (h2, app # rest))))"

text \<open>Comparison of two values: \<^verbatim>\<open>==\<close> is equality of \<open>pyval\<close> (a string never equals an
  integer); \<^verbatim>\<open><\<close> orders integers, orders strings by code points, and raises TypeError on
  a string and an integer.\<close>

fun str_lt :: "string \<Rightarrow> string \<Rightarrow> bool" where
  "str_lt [] [] = False"
| "str_lt [] (b # bs) = True"
| "str_lt (a # as) [] = False"
| "str_lt (a # as) (b # bs) = (ord a < ord b \<or> (a = b \<and> str_lt as bs))"

fun py_lt :: "pyval \<Rightarrow> pyval \<Rightarrow> error + bool" where
  "py_lt (IntV a) (IntV b) = Inr (a < b)"
| "py_lt (StrV a) (StrV b) = Inr (str_lt a b)"
| "py_lt (IntV a) (StrV b) = Inl TypeError"
| "py_lt (StrV a) (IntV b) = Inl TypeError"

definition has_patch_upgrade :: "pydict \<Rightarrow> error + bool" where
  "has_patch_upgrade app =
     (if has_key app ''current_major'' \<and> has_key app ''available_major'' then
        bind (getitem app ''current_major'') (\<lambda>cmaj.
        bind (getitem app ''available_major'') (\<lambda>amaj.
        if cmaj = amaj then
          bind (getitem app ''current_minor'') (\<lambda>cmin.
          bind (getitem app ''available_minor'') (\<lambda>amin.
          if cmin = amin then
            bind (getitem app ''current_patch'') (\<lambda>cpat.
            bind (getitem app ''available_patch'') (\<lambda>apat. py_lt cpat apat))
          else Inr False))
        else Inr False))
      else Inr False)"

definition has_minor_upgrade :: "pydict \<Rightarrow> error + bool" where
  "has_minor_upgrade app =
     (if has_key app ''current_major'' \<and> has_key app ''available_major'' then
        bind (getitem app ''current_major'') (\<lambda>cmaj.
        bind (getitem app ''available_major'') (\<lambda>amaj.
        if cmaj = amaj then
          bind (getitem app ''current_minor'') (\<lambda>cmin.
          bind (getitem app ''available_minor'') (\<lambda>amin. py_lt cmin amin))
        else Inr False))
      else Inr False)"

definition has_major_upgrade :: "pydict \<Rightarrow> error + bool" where
  "has_major_upgrade app =
     (if has_key app ''current_major'' \<and> has_key app ''available_major'' then
        bind (getitem app ''current_major'') (\<lambda>cmaj.
        bind (getitem app ''available_major'') (\<lambda>amaj. py_lt cmaj amaj))
      else Inr False)"

definition has_unknown_current_version :: "pydict \<Rightarrow> error + bool" where
  "has_unknown_current_version app =
     bind (getitem app ''Version'') (\<lambda>version.
       case version of
         IntV _ \<Rightarrow> Inl AttributeError
       | StrV s \<Rightarrow> Inr (lower s = ''unknown''))"

text \<open>\<^verbatim>\<open>get_apps_to_upgrade\<close>. The four comprehensions are all evaluated before the level
  is looked at; the level \<open>all\<close> is compared after \<^verbatim>\<open>lower()\<close>, the other three as they
  are, and any other level selects nothing.\<close>

definition get_apps_to_upgrade ::
  "heap \<Rightarrow> ref list \<Rightarrow> string \<Rightarrow> bool \<Rightarrow> error + (heap \<times> ref list)" where
  "get_apps_to_upgrade h applications upgrade_level upgrade_unknowns =
     bind (get_applications_using_semver h applications) (\<lambda>(h', applications_using_semver).
     if lower upgrade_level = ''all'' then Inr (h', applications)
     else
       bind (filter_res (\<lambda>app. has_patch_upgrade (deref h' app)) applications_using_semver)
         (\<lambda>apps_with_patch_upgrades.
       bind (filter_res (\<lambda>app. has_minor_upgrade (deref h' app)) applications_using_semver)
         (\<lambda>apps_with_minor_upgrades.
       bind (filter_res (\<lambda>app. has_major_upgrade (deref h' app)) applications_using_semver)
         (\<lambda>apps_with_major_upgrades.
       bind (filter_res (\<lambda>app. has_unknown_current_version (deref h' app)) applications_using_semver)
         (\<lambda>apps_with_unknown_current_version.
       let apps_to_upgrade =
             (if upgrade_level = ''patch'' then apps_with_patch_upgrades
              else if upgrade_level = ''minor'' then
                apps_with_minor_upgrades @ apps_with_patch_upgrades
              else if upgrade_level = ''major'' then
                apps_with_major_upgrades @ apps_with_minor_upgrades @ apps_with_patch_upgrades
              else [])
       in Inr (h', if upgrade_unknowns then apps_to_upgrade @ apps_with_unknown_current_version
                   else apps_to_upgrade))))))"

text \<open>The allow-list and the block-list. The two functions that use them are written
  over any pair of identifier sets; the program's own are the instances below.\<close>

definition get_allowed_updates :: "string set" where
  "get_allowed_updates = {''Python.Python.3''}"

definition get_blocked_updates :: "string set" where
  "get_blocked_updates = {''EvanCzaplicki.Elm'', ''VMware.WorkstationPro'', ''CoreyButler.NVMforWindows''}"

definition id_in :: "pydict \<Rightarrow> string set \<Rightarrow> error + bool" where
  "id_in app ids =
     bind (getitem app ''Id'') (\<lambda>i. Inr (case i of StrV s \<Rightarrow> s \<in> ids | IntV _ \<Rightarrow> False))"

definition add_allowed_updates_with ::
  "string set \<Rightarrow> heap \<Rightarrow> ref list \<Rightarrow> ref list \<Rightarrow> error + ref list" where
  "add_allowed_updates_with allowed_applications h apps_to_upgrade applications =
     bind (filter_res (\<lambda>app. id_in (deref h app) allowed_applications) applications)
       (\<lambda>allowed_applications_with_upgrades_available.
          Inr (apps_to_upgrade @ allowed_applications_with_upgrades_available))"

definition remove_blocked_updates_with ::
  "string set \<Rightarrow> heap \<Rightarrow> ref list \<Rightarrow> error + ref list" where
  "remove_blocked_updates_with blocked_applications h apps_to_upgrade =
     filter_res (\<lambda>app. bind (id_in (deref h app) blocked_applications) (\<lambda>b. Inr (\<not> b)))
       apps_to_upgrade"

definition add_allowed_updates :: "heap \<Rightarrow> ref list \<Rightarrow> ref list \<Rightarrow> error + ref list" where
  "add_allowed_updates = add_allowed_updates_with get_allowed_updates"

definition remove_blocked_updates :: "heap \<Rightarrow> ref list \<Rightarrow> error + ref list" where
  "remove_blocked_updates = remove_blocked_updates_with get_blocked_updates"

text \<open>The selection steps of \<^verbatim>\<open>main\<close>, from the parsed applications to the list handed to
  \<^verbatim>\<open>upgrade_app\<close>: the semver filter, the level, the allow-list, the block-list. The result
  is the final store and the references selected, in order.\<close>

definition main_select_with ::
  "string set \<Rightarrow> string set \<Rightarrow> heap \<Rightarrow> ref list \<Rightarrow> string \<Rightarrow> bool \<Rightarrow> error + (heap \<times> ref list)" where
  "main_select_with allowed blocked h applications upgrade_level upgrade_unknowns =
     bind (get_applications_using_semver h applications) (\<lambda>(h1, applications_using_semver).
     bind (get_apps_to_upgrade h1 applications_using_semver upgrade_level upgrade_unknowns)
       (\<lambda>(h2, apps_to_upgrade).
     bind (add_allowed_updates_with allowed h2 apps_to_upgrade applications) (\<lambda>apps_to_upgrade'.
     bind (remove_blocked_updates_with blocked h2 apps_to_upgrade') (\<lambda>apps_to_upgrade''.
     Inr (h2, apps_to_upgrade'')))))"

definition main_select :: "heap \<Rightarrow> ref list \<Rightarrow> string \<Rightarrow> bool \<Rightarrow> error + (heap \<times> ref list)" where
  "main_select = main_select_with get_allowed_updates get_blocked_updates"

text \<open>\<^verbatim>\<open>main\<close> from the captured table on: the parsed records are the store, the i-th
  record at address i; the level read from the environment is lower-cased.\<close>

definition main_apps_to_upgrade :: "string \<Rightarrow> string \<Rightarrow> bool \<Rightarrow> error + (heap \<times> ref list)" where
  "main_apps_to_upgrade table WINGET_UPGRADE_LEVEL upgrade_unknowns =
     bind (extract_applications_from_table table) (\<lambda>applications.
       main_select applications [0..<length applications] (lower WINGET_UPGRADE_LEVEL)
         upgrade_unknowns)"

section \<open>Names used in the statements\<close>

text \<open>The six keys that \<^verbatim>\<open>add_semver_details\<close> assigns.\<close>

definition annotation_keys :: "string set" where
  "annotation_keys = {''current_major'', ''current_minor'', ''current_patch'',
     ''available_major'', ''available_minor'', ''available_patch''}"

text \<open>A record as the parser builds it holds strings only.\<close>

definition string_valued :: "pydict \<Rightarrow> bool" where
  "string_valued d = list_all (\<lambda>(k, v). case v of StrV _ \<Rightarrow> True | IntV _ \<Rightarrow> False) d"

text \<open>A store of nine applications for the examples: a patch, a minor and a major
  upgrade, equal versions, an unknown current version, an allow-listed application
  with two-component versions, a block-listed one, an allow-listed one with a patch
  upgrade, and one with two-component versions that is on neither list; and the same
  store after \<^verbatim>\<open>add_semver_details\<close> has run over it.\<close>

definition example_store :: heap where
  "example_store =
     [[(''Id'', StrV ''Pat.Pat''), (''Version'', StrV ''1.0.0''), (''Available'', StrV ''1.0.1'')],
      [(''Id'', StrV ''Min.Min''), (''Version'', StrV ''1.0.0''), (''Available'', StrV ''1.1.0'')],
      [(''Id'', StrV ''Maj.Maj''), (''Version'', StrV ''1.0.0''), (''Available'', StrV ''2.0.0'')],
      [(''Id'', StrV ''Eq.Eq''), (''Version'', StrV ''1.2.3''), (''Available'', StrV ''1.02.3'')],
      [(''Id'', StrV ''Unk.Unk''), (''Version'', StrV ''Unknown''), (''Available'', StrV ''2.0.0'')],
      [(''Id'', StrV ''Python.Python.3''), (''Version'', StrV ''3.11''), (''Available'', StrV ''3.12'')],
      [(''Id'', StrV ''VMware.WorkstationPro''), (''Version'', StrV ''17.0.0''),
       (''Available'', StrV ''17.0.1'')],
      [(''Id'', StrV ''Python.Python.3''), (''Version'', StrV ''3.11.0''),
       (''Available'', StrV ''3.11.1'')],
      [(''Id'', StrV ''Cal.Ver''), (''Version'', StrV ''24.1''), (''Available'', StrV ''24.2'')]]"

definition example_store_annotated :: heap where
  "example_store_annotated =
     [[(''Id'', StrV ''Pat.Pat''), (''Version'', StrV ''1.0.0''), (''Available'', StrV ''1.0.1''),
       (''current_major'', IntV 1), (''current_minor'', IntV 0), (''current_patch'', IntV 0),
       (''available_major'', IntV 1), (''available_minor'', IntV 0), (''available_patch'', IntV 1)],
      [(''Id'', StrV ''Min.Min''), (''Version'', StrV ''1.0.0''), (''Available'', StrV ''1.1.0''),
       (''current_major'', IntV 1), (''current_minor'', IntV 0), (''current_patch'', IntV 0),
       (''available_major'', IntV 1), (''available_minor'', IntV 1), (''available_patch'', IntV 0)],
      [(''Id'', StrV ''Maj.Maj''), (''Version'', StrV ''1.0.0''), (''Available'', StrV ''2.0.0''),
       (''current_major'', IntV 1), (''current_minor'', IntV 0), (''current_patch'', IntV 0),
       (''available_major'', IntV 2), (''available_minor'', IntV 0), (''available_patch'', IntV 0)],
      [(''Id'', StrV ''Eq.Eq''), (''Version'', StrV ''1.2.3''), (''Available'', StrV ''1.02.3''),
       (''current_major'', IntV 1), (''current_minor'', IntV 2), (''current_patch'', IntV 3),
       (''available_major'', IntV 1), (''available_minor'', IntV 2), (''available_patch'', IntV 3)],
      [(''Id'', StrV ''Unk.Unk''), (''Version'', StrV ''Unknown''), (''Available'', StrV ''2.0.0''),
       (''available_major'', IntV 2), (''available_minor'', IntV 0), (''available_patch'', IntV 0)],
      [(''Id'', StrV ''Python.Python.3''), (''Version'', StrV ''3.11''), (''Available'', StrV ''3.12'')],
      [(''Id'', StrV ''VMware.WorkstationPro''), (''Version'', StrV ''17.0.0''),
       (''Available'', StrV ''17.0.1''),
       (''current_major'', IntV 17), (''current_minor'', IntV 0), (''current_patch'', IntV 0),
       (''available_major'', IntV 17), (''available_minor'', IntV 0), (''available_patch'', IntV 1)],
      [(''Id'', StrV ''Python.Python.3''), (''Version'', StrV ''3.11.0''),
       (''Available'', StrV ''3.11.1''),
       (''current_major'', IntV 3), (''current_minor'', IntV 11), (''current_patch'', IntV 0),
       (''available_major'', IntV 3), (''available_minor'', IntV 11), (''available_patch'', IntV 1)],
      [(''Id'', StrV ''Cal.Ver''), (''Version'', StrV ''24.1''), (''Available'', StrV ''24.2'')]]"

text \<open>The captured output of \<^verbatim>\<open>winget upgrade\<close> with every line ended by CR LF, and two
  tables for the examples: each has the header, the separator, one application and the
  summary line.\<close>

definition crlf_lines :: "string list \<Rightarrow> string" where
  "crlf_lines ls = concat (map (\<lambda>l. l @ [CHR 0x0D, CHR 0x0A]) ls)"

definition example_table_semver :: string where
  "example_table_semver = crlf_lines
     [''Name Id      Version Available Source'',
      ''---------------------------------------'',
      ''Foo  Foo.Foo 1.0.0   1.1.0     winget'',
      ''1 upgrades available.'']"

definition example_table_calver :: string where
  "example_table_calver = crlf_lines
     [''Name Id      Version Available Source'',
      ''---------------------------------------'',
      ''Cal  Cal.Ver 24.1    24.2      winget'',
      ''1 upgrades available.'']"

text \<open>Four more tables: a data line that ends before the third column, a header
  with the same label twice, a header with a label whose text occurs inside an earlier
  label, and a header line of spaces.\<close>

definition example_table_short_row :: string where
  "example_table_short_row = crlf_lines
     [''Name Id      Version Available Source'',
      ''---------------------------------------'',
      ''Foo  Foo.Foo 1.0.0   1.1.0     winget'',
      ''Bar  Bar.Bar'',
      ''2 upgrades available.'']"

definition example_table_repeated_label :: string where
  "example_table_repeated_label = crlf_lines
     [''A A'', ''---'', ''x y'', ''1 upgrades available.'']"

definition example_table_label_inside :: string where
  "example_table_label_inside = crlf_lines
     [''Ab   Name  Version  b'', ''---------------------'', ''xyz'', ''1 upgrades available.'']"

definition example_table_blank_header :: string where
  "example_table_blank_header = crlf_lines
     [''   '', ''---'', ''Foo  Foo.Foo 1.0.0   1.1.0     winget'', ''1 upgrades available.'']"

section \<open>Basic facts\<close>

subsection \<open>Sequencing and dictionaries\<close>

lemma bind_eq_Inr: "(bind m f = Inr y) = (\<exists>x. m = Inr x \<and> f x = Inr y)"
  by (cases m) auto

lemma bind_case: "bind m f = (case m of Inl e \<Rightarrow> Inl e | Inr x \<Rightarrow> f x)"
  by (cases m) auto

lemma map_of_setitem: "map_of (setitem d k v) k' = (if k' = k then Some v else map_of d k')"
  by (induction d) auto

lemma keys_setitem: "keys (setitem d k v) = (if k \<in> set (keys d) then keys d else keys d @ [k])"
  unfolding keys_def by (induction d) force+

lemma setitem_same: "map_of d k = Some v \<Longrightarrow> setitem d k v = d"
  by (induction d) (auto split: if_splits)

lemma getitem_eq_Inr: "(getitem d k = Inr v) = (map_of d k = Some v)"
  by (auto simp: getitem_def split: option.splits)

lemma add_current_version_frame:
  assumes "add_current_version d = Inr d'" 
    and "k \<noteq> ''current_major''" "k \<noteq> ''current_minor''" "k \<noteq> ''current_patch''"
  shows "map_of d' k = map_of d k"
  using assms unfolding add_current_version_def bind_case
  by (auto simp: map_of_setitem split: sum.splits if_splits prod.splits)

lemma add_available_version_frame:
  assumes "add_available_version d = Inr d'" 
    and "k \<noteq> ''available_major''" "k \<noteq> ''available_minor''" "k \<noteq> ''available_patch''"
  shows "map_of d' k = map_of d k"
  using assms unfolding add_available_version_def bind_case
  by (auto simp: map_of_setitem split: sum.splits if_splits prod.splits)

lemma add_current_version_idem:
  assumes "add_current_version d = Inr d'" 
  shows "add_current_version d' = Inr d'"
proof -
  have V: "getitem d' ''Version'' = getitem d ''Version''"
    using add_current_version_frame[OF assms, of "''Version''"] by (simp add: getitem_def)
  show ?thesis
    using assms unfolding add_current_version_def V unfolding bind_case
    by (auto simp: map_of_setitem setitem_same split: sum.splits if_splits prod.splits)
qed

lemma add_available_version_idem:
  assumes "add_available_version d = Inr d'" 
  shows "add_available_version d' = Inr d'"
proof -
  have V: "getitem d' ''Available'' = getitem d ''Available''"
    using add_available_version_frame[OF assms, of "''Available''"] by (simp add: getitem_def)
  show ?thesis
    using assms unfolding add_available_version_def V unfolding bind_case
    by (auto simp: map_of_setitem setitem_same split: sum.splits if_splits prod.splits)
qed


lemma add_current_version_values:
  assumes "add_current_version d = Inr d'" "map_of d ''Version'' = Some v"
    "SEMVER_PATTERN_match v = Inr True" "split_version v = Inr (a, b, c)"
  shows "map_of d' ''current_major'' = Some (IntV a)"
    "map_of d' ''current_minor'' = Some (IntV b)"
    "map_of d' ''current_patch'' = Some (IntV c)"
  using assms unfolding add_current_version_def bind_case
  by (auto simp: map_of_setitem getitem_def)

lemma add_available_version_values:
  assumes "add_available_version d = Inr d'" "map_of d ''Available'' = Some v"
    "SEMVER_PATTERN_match v = Inr True" "split_version v = Inr (a, b, c)"
  shows "map_of d' ''available_major'' = Some (IntV a)"
    "map_of d' ''available_minor'' = Some (IntV b)"
    "map_of d' ''available_patch'' = Some (IntV c)"
  using assms unfolding add_available_version_def bind_case
  by (auto simp: map_of_setitem getitem_def)

lemma add_current_version_transfer:
  assumes "add_current_version d = Inr d1"
    and "map_of d' ''Version'' = map_of d1 ''Version''"
    and "map_of d' ''current_major'' = map_of d1 ''current_major''"
    and "map_of d' ''current_minor'' = map_of d1 ''current_minor''"
    and "map_of d' ''current_patch'' = map_of d1 ''current_patch''"
  shows "add_current_version d' = Inr d'"
proof -
  have V1: "map_of d1 ''Version'' = map_of d ''Version''"
    using add_current_version_frame[OF assms(1), of "''Version''"] by simp
  from assms(1) obtain v m where v: "map_of d ''Version'' = Some v" and m: "SEMVER_PATTERN_match v = Inr m"
    unfolding add_current_version_def bind_case
    by (auto simp: getitem_def split: sum.splits option.splits)
  have g: "getitem d' ''Version'' = Inr v" using v V1 assms(2) by (simp add: getitem_def)
  show ?thesis
  proof (cases m)
    case False
    then show ?thesis using g m by (simp add: add_current_version_def)
  next
    case True
    from assms(1) v m True obtain a b c where s: "split_version v = Inr (a, b, c)"
      unfolding add_current_version_def bind_case
      by (auto simp: getitem_def split: sum.splits)
    note vals = add_current_version_values[OF assms(1) v m[unfolded True[THEN eqTrueI]] s]
    have "setitem (setitem (setitem d' ''current_major'' (IntV a)) ''current_minor'' (IntV b)) ''current_patch'' (IntV c) = d'"
      using vals assms(3-5) by (simp add: setitem_same)
    then show ?thesis using g m True s by (simp add: add_current_version_def)
  qed
qed

lemma add_semver_details_dict_frame:
  assumes "add_semver_details_dict d = Inr d'" and "k \<notin> annotation_keys"
  shows "map_of d' k = map_of d k"
proof -
  from assms(1) obtain d1 where 1: "add_current_version d = Inr d1" and 2: "add_available_version d1 = Inr d'"
    by (auto simp: add_semver_details_dict_def bind_eq_Inr)
  from assms(2) show ?thesis
    using add_current_version_frame[OF 1, of k] add_available_version_frame[OF 2, of k]
    by (simp add: annotation_keys_def)
qed

lemma add_semver_details_dict_idem:
  assumes "add_semver_details_dict d = Inr d'"
  shows "add_semver_details_dict d' = Inr d'"
proof -
  from assms(1) obtain d1 where 1: "add_current_version d = Inr d1" and 2: "add_available_version d1 = Inr d'"
    by (auto simp: add_semver_details_dict_def bind_eq_Inr)
  have "add_current_version d' = Inr d'"
    by (rule add_current_version_transfer[OF 1]) (simp_all add: add_available_version_frame[OF 2])
  moreover have "add_available_version d' = Inr d'"
    by (rule add_available_version_idem[OF 2])
  ultimately show ?thesis by (simp add: add_semver_details_dict_def)
qed

lemma uses_semver_add:
  assumes "add_semver_details_dict d = Inr d'"
  shows "uses_semver d' = uses_semver d"
proof -
  have "map_of d' ''Version'' = map_of d ''Version''" "map_of d' ''Available'' = map_of d ''Available''"
    using assms by (simp_all add: add_semver_details_dict_frame annotation_keys_def)
  then have "getitem d' ''Version'' = getitem d ''Version''"
    "getitem d' ''Available'' = getitem d ''Available''"
    by (simp_all add: getitem_def)
  then show ?thesis unfolding uses_semver_def by (simp cong: if_cong)
qed

lemma add_semver_details_dict_Nil: "add_semver_details_dict [] = Inl KeyError"
  by (simp add: add_semver_details_dict_def add_current_version_def getitem_def)

lemma uses_semver_Nil: "uses_semver [] = Inl KeyError"
  by (simp add: uses_semver_def getitem_def)

lemma deref_update: "deref (h[a := d]) r = (if r = a \<and> a < length h then d else deref h r)"
  by (simp add: deref_def)

lemma add_semver_details_heap:
  assumes "add_semver_details h app = Inr h1"
  shows "app < length h" "length h1 = length h"
    "add_semver_details_dict (deref h app) = Inr (deref h1 app)"
    "r \<noteq> app \<Longrightarrow> deref h1 r = deref h r"
proof -
  from assms obtain d where d: "add_semver_details_dict (deref h app) = Inr d" and h1: "h1 = h[app := d]"
    by (auto simp: add_semver_details_def bind_eq_Inr)
  show 1: "app < length h"
  proof (rule ccontr)
    assume "\<not> app < length h"
    then have "deref h app = []" by (simp add: deref_def)
    with d show False by (simp add: add_semver_details_dict_Nil)
  qed
  show "length h1 = length h" using h1 by simp
  show "add_semver_details_dict (deref h app) = Inr (deref h1 app)"
    using d h1 1 by (simp add: deref_update)
  show "r \<noteq> app \<Longrightarrow> deref h1 r = deref h r" using h1 by (simp add: deref_update)
qed


lemma get_applications_using_semver_effect:
  assumes "get_applications_using_semver h apps = Inr (h', sv)"
  shows "length h' = length h \<and>
         sv = filter (\<lambda>r. uses_semver (deref h r) = Inr True) apps \<and>
         (\<forall>r. if r \<in> set sv then add_semver_details_dict (deref h r) = Inr (deref h' r)
              else deref h' r = deref h r)"
  using assms
proof (induction apps arbitrary: h h' sv)
  case Nil
  then show ?case by simp
next
  case (Cons app apps)
  show ?case
  proof (cases "uses_semver (deref h app)")
    case (Inl e)
    with Cons.prems show ?thesis by simp
  next
    case (Inr b)
    show ?thesis
    proof (cases b)
      case False
      with Inr Cons.prems have "get_applications_using_semver h apps = Inr (h', sv)" by simp
      from Cons.IH[OF this] Inr False show ?thesis by simp
    next
      case True
      with Inr Cons.prems obtain h1 rest where
        h1: "add_semver_details h app = Inr h1" and
        rest: "get_applications_using_semver h1 apps = Inr (h', rest)" and
        sv: "sv = app # rest"
        by (auto split: sum.splits)
      note A = add_semver_details_heap[OF h1]
      note IH = Cons.IH[OF rest]
      have us: "uses_semver (deref h1 r) = uses_semver (deref h r)" for r
        using A(3) A(4)[of r] by (cases "r = app") (simp_all add: uses_semver_add)
      have len: "length h' = length h" using IH A(2) by simp
      have flt: "sv = filter (\<lambda>r. uses_semver (deref h r) = Inr True) (app # apps)"
        using IH sv Inr True by (simp add: us)
      have eff: "if r \<in> set sv then add_semver_details_dict (deref h r) = Inr (deref h' r)
              else deref h' r = deref h r" for r
      proof (cases "r = app")
        case rapp: True
        have "add_semver_details_dict (deref h app) = Inr (deref h' app)"
        proof (cases "app \<in> set rest")
          case True
          with IH have "add_semver_details_dict (deref h1 app) = Inr (deref h' app)" by simp
          moreover have "add_semver_details_dict (deref h1 app) = Inr (deref h1 app)"
            using A(3) by (rule add_semver_details_dict_idem)
          ultimately show ?thesis using A(3) by simp
        next
          case False
          with IH have "deref h' app = deref h1 app" by simp
          with A(3) show ?thesis by simp
        qed
        with rapp sv show ?thesis by simp
      next
        case False
        from IH have e: "if r \<in> set rest then add_semver_details_dict (deref h1 r) = Inr (deref h' r)
              else deref h' r = deref h1 r" by blast
        have m: "(r \<in> set sv) = (r \<in> set rest)" using sv False by simp
        show ?thesis using e unfolding m A(4)[OF False] .
      qed
      from len flt eff show ?thesis by blast
    qed
  qed
qed

lemma get_applications_using_semver_again:
  assumes "\<forall>r\<in>set xs. uses_semver (deref h r) = Inr True \<and>
             add_semver_details_dict (deref h r) = Inr (deref h r)"
  shows "get_applications_using_semver h xs = Inr (h, xs)"
  using assms
proof (induction xs)
  case Nil
  then show ?case by simp
next
  case (Cons x xs)
  then have d: "add_semver_details_dict (deref h x) = Inr (deref h x)" by simp
  have "h[x := deref h x] = h" by (cases "x < length h") (simp_all add: deref_def list_update_beyond)
  with d have "add_semver_details h x = Inr h" by (simp add: add_semver_details_def)
  with Cons show ?case by simp
qed

lemma filter_res_eq_Inr:
  assumes "filter_res p xs = Inr ys"
  shows "ys = filter (\<lambda>x. p x = Inr True) xs \<and> (\<forall>x\<in>set xs. \<exists>b. p x = Inr b)"
  using assms
  by (induction xs arbitrary: ys) (auto split: sum.splits)

subsection \<open>The selection steps of main\<close>

lemma get_applications_using_semver_stable:
  assumes "get_applications_using_semver h apps = Inr (h1, sv)"
  shows "get_applications_using_semver h1 sv = Inr (h1, sv)"
proof (rule get_applications_using_semver_again, rule ballI)
  fix r assume r: "r \<in> set sv"
  note E = get_applications_using_semver_effect[OF assms]
  from E r have a: "add_semver_details_dict (deref h r) = Inr (deref h1 r)" by auto
  from E r have "uses_semver (deref h r) = Inr True" by auto
  with uses_semver_add[OF a] have "uses_semver (deref h1 r) = Inr True" by simp
  with add_semver_details_dict_idem[OF a]
  show "uses_semver (deref h1 r) = Inr True \<and>
        add_semver_details_dict (deref h1 r) = Inr (deref h1 r)" by simp
qed

lemma get_apps_to_upgrade_heap:
  assumes "get_apps_to_upgrade h apps level unk = Inr (h', sel)"
  shows "\<exists>sv. get_applications_using_semver h apps = Inr (h', sv)"
  using assms unfolding get_apps_to_upgrade_def bind_case
  by (auto split: sum.splits if_splits simp: Let_def)

lemma not_blocked_iff: "(bind (id_in d ids) (\<lambda>b. Inr (\<not> b)) = Inr True) = (id_in d ids = Inr False)"
  by (cases "id_in d ids") auto

lemma main_select_with_steps:
  assumes "main_select_with allowed blocked h apps level unk = Inr (h', res)"
  shows "\<exists>sv sel. get_applications_using_semver h apps = Inr (h', sv) \<and>
           get_apps_to_upgrade h' sv level unk = Inr (h', sel) \<and>
           res = filter (\<lambda>r. id_in (deref h' r) blocked = Inr False)
                   (sel @ filter (\<lambda>r. id_in (deref h' r) allowed = Inr True) apps)"
proof -
  from assms obtain h1 sv h2 sel al where
    1: "get_applications_using_semver h apps = Inr (h1, sv)" and
    2: "get_apps_to_upgrade h1 sv level unk = Inr (h2, sel)" and
    3: "add_allowed_updates_with allowed h2 sel apps = Inr al" and
    4: "remove_blocked_updates_with blocked h2 al = Inr res" and
    5: "h' = h2"
    by (auto simp: main_select_with_def bind_eq_Inr)
  from get_apps_to_upgrade_heap[OF 2] get_applications_using_semver_stable[OF 1]
  have h12: "h2 = h1" by simp
  from 3 have al: "al = sel @ filter (\<lambda>r. id_in (deref h2 r) allowed = Inr True) apps"
    by (auto simp: add_allowed_updates_with_def bind_eq_Inr dest: filter_res_eq_Inr)
  from 4 have "res = filter (\<lambda>r. id_in (deref h2 r) blocked = Inr False) al"
    unfolding remove_blocked_updates_with_def
    by (auto dest: filter_res_eq_Inr simp: not_blocked_iff)
  with 1 2 al 5 h12 show ?thesis by simp
qed

subsection \<open>The level step\<close>

lemma lower_levels:
  "lower ''patch'' = ''patch''" "lower ''minor'' = ''minor''" "lower ''major'' = ''major''"
  "lower ''all'' = ''all''"
  by code_simp+

lemma get_apps_to_upgrade_lists:
  assumes "get_apps_to_upgrade h apps level unk = Inr (h', sel)" and "lower level \<noteq> ''all''"
  shows "\<exists>sv P Mi Ma U.
     get_applications_using_semver h apps = Inr (h', sv) \<and>
     filter_res (\<lambda>app. has_patch_upgrade (deref h' app)) sv = Inr P \<and>
     filter_res (\<lambda>app. has_minor_upgrade (deref h' app)) sv = Inr Mi \<and>
     filter_res (\<lambda>app. has_major_upgrade (deref h' app)) sv = Inr Ma \<and>
     filter_res (\<lambda>app. has_unknown_current_version (deref h' app)) sv = Inr U \<and>
     sel = (if level = ''patch'' then P else if level = ''minor'' then Mi @ P
            else if level = ''major'' then Ma @ Mi @ P else []) @ (if unk then U else [])"
  using assms
  by (clarsimp simp: get_apps_to_upgrade_def bind_eq_Inr Let_def split del: if_split)
     (simp split: if_splits)

lemma split_char_no_sep: "sep \<notin> set s \<Longrightarrow> split_char sep s = [s]"
  by (induction s) auto

lemma lower_char_dot: "lower_char CHR ''.'' = CHR ''.''"
  by code_simp

lemma semver_not_unknown:
  assumes "SEMVER_PATTERN_match (StrV v) = Inr True"
  shows "lower v \<noteq> ''unknown''"
proof
  assume u: "lower v = ''unknown''"
  have "CHR ''.'' \<notin> set v"
  proof
    assume "CHR ''.'' \<in> set v"
    then have "lower_char CHR ''.'' \<in> set (lower v)" unfolding lower_def by simp
    then show False unfolding u lower_char_dot by simp
  qed
  then have "split_char CHR ''.'' v = [v]" by (rule split_char_no_sep)
  with assms show False by (simp add: SEMVER_PATTERN_match_def)
qed

lemma add_semver_details_dict_current:
  assumes "add_semver_details_dict d = Inr d'" and "map_of d ''Version'' = Some v"
    and "SEMVER_PATTERN_match v = Inr True"
  shows "\<exists>x y z. split_version v = Inr (x, y, z) \<and>
           map_of d' ''current_major'' = Some (IntV x) \<and>
           map_of d' ''current_minor'' = Some (IntV y) \<and>
           map_of d' ''current_patch'' = Some (IntV z)"
proof -
  from assms(1) obtain d1 where 1: "add_current_version d = Inr d1" and 2: "add_available_version d1 = Inr d'"
    by (auto simp: add_semver_details_dict_def bind_eq_Inr)
  from 1 assms(2,3) obtain x y z where s: "split_version v = Inr (x, y, z)"
    unfolding add_current_version_def bind_case
    by (auto simp: getitem_def split: sum.splits)
  note vals = add_current_version_values[OF 1 assms(2,3) s]
  show ?thesis using s vals by (simp add: add_available_version_frame[OF 2])
qed

lemma add_semver_details_dict_available:
  assumes "add_semver_details_dict d = Inr d'" and "map_of d ''Available'' = Some v"
    and "SEMVER_PATTERN_match v = Inr True"
  shows "\<exists>x y z. split_version v = Inr (x, y, z) \<and>
           map_of d' ''available_major'' = Some (IntV x) \<and>
           map_of d' ''available_minor'' = Some (IntV y) \<and>
           map_of d' ''available_patch'' = Some (IntV z)"
proof -
  from assms(1) obtain d1 where 1: "add_current_version d = Inr d1" and 2: "add_available_version d1 = Inr d'"
    by (auto simp: add_semver_details_dict_def bind_eq_Inr)
  have a: "map_of d1 ''Available'' = Some v"
    using assms(2) by (simp add: add_current_version_frame[OF 1])
  from 2 a assms(3) obtain x y z where s: "split_version v = Inr (x, y, z)"
    unfolding add_available_version_def bind_case
    by (auto simp: getitem_def split: sum.splits)
  from add_available_version_values[OF 2 a assms(3) s] s show ?thesis by simp
qed

lemma upgrade_conditions_on_integers:
  assumes "map_of d ''current_major'' = Some (IntV x)" "map_of d ''current_minor'' = Some (IntV y)"
    "map_of d ''current_patch'' = Some (IntV z)"
    "map_of d ''available_major'' = Some (IntV x')" "map_of d ''available_minor'' = Some (IntV y')"
    "map_of d ''available_patch'' = Some (IntV z')"
  shows "has_patch_upgrade d = Inr (x = x' \<and> y = y' \<and> z < z')"
    "has_minor_upgrade d = Inr (x = x' \<and> y < y')"
    "has_major_upgrade d = Inr (x < x')"
  using assms
  by (simp_all add: has_patch_upgrade_def has_minor_upgrade_def has_major_upgrade_def
      has_key_def getitem_def)

lemma get_apps_to_upgrade_member:
  assumes "get_apps_to_upgrade h apps level unk = Inr (h', sel)" and "lower level \<noteq> ''all''"
    and "r \<in> set sel"
  shows "add_semver_details_dict (deref h r) = Inr (deref h' r) \<and>
         (has_patch_upgrade (deref h' r) = Inr True \<or> has_minor_upgrade (deref h' r) = Inr True \<or>
          has_major_upgrade (deref h' r) = Inr True \<or>
          has_unknown_current_version (deref h' r) = Inr True)"
proof -
  from get_apps_to_upgrade_lists[OF assms(1,2)] obtain sv P Mi Ma U where
    sv: "get_applications_using_semver h apps = Inr (h', sv)" and
    P: "filter_res (\<lambda>app. has_patch_upgrade (deref h' app)) sv = Inr P" and
    Mi: "filter_res (\<lambda>app. has_minor_upgrade (deref h' app)) sv = Inr Mi" and
    Ma: "filter_res (\<lambda>app. has_major_upgrade (deref h' app)) sv = Inr Ma" and
    U: "filter_res (\<lambda>app. has_unknown_current_version (deref h' app)) sv = Inr U" and
    sel: "sel = (if level = ''patch'' then P else if level = ''minor'' then Mi @ P
            else if level = ''major'' then Ma @ Mi @ P else []) @ (if unk then U else [])"
    by blast
  from sel assms(3) have "r \<in> set P \<union> set Mi \<union> set Ma \<union> set U"
    by (auto split: if_splits)
  then have m: "r \<in> set sv \<and> (has_patch_upgrade (deref h' r) = Inr True \<or> has_minor_upgrade (deref h' r) = Inr True \<or>
          has_major_upgrade (deref h' r) = Inr True \<or>
          has_unknown_current_version (deref h' r) = Inr True)"
    using filter_res_eq_Inr[OF P] filter_res_eq_Inr[OF Mi] filter_res_eq_Inr[OF Ma]
      filter_res_eq_Inr[OF U] by auto
  with get_applications_using_semver_effect[OF sv] show ?thesis by auto
qed

subsection \<open>The whole selection\<close>

lemma id_in_after_semver:
  assumes "get_applications_using_semver h apps = Inr (h', sv)"
  shows "id_in (deref h' r) ids = id_in (deref h r) ids"
proof -
  have "map_of (deref h' r) ''Id'' = map_of (deref h r) ''Id''"
  proof (cases "r \<in> set sv")
    case True
    with get_applications_using_semver_effect[OF assms]
    have "add_semver_details_dict (deref h r) = Inr (deref h' r)" by auto
    then show ?thesis by (rule add_semver_details_dict_frame) (simp add: annotation_keys_def)
  next
    case False
    with get_applications_using_semver_effect[OF assms] show ?thesis by auto
  qed
  then show ?thesis by (simp add: id_in_def getitem_def)
qed

lemma get_apps_to_upgrade_twice:
  assumes "get_applications_using_semver h apps = Inr (h', sv)" and "lower level \<noteq> ''all''"
  shows "get_apps_to_upgrade h' sv level unk = get_apps_to_upgrade h apps level unk"
  using assms get_applications_using_semver_stable[OF assms(1)]
  by (simp add: get_apps_to_upgrade_def)

lemma get_apps_to_upgrade_all:
  assumes "get_applications_using_semver h apps = Inr (h', sv)" and "lower level = ''all''"
  shows "get_apps_to_upgrade h apps level unk = Inr (h', apps)"
  using assms by (simp add: get_apps_to_upgrade_def)

lemma main_select_with_result:
  assumes "main_select_with allowed blocked h apps level unk = Inr (h', res)"
  shows "\<exists>sv sel. get_applications_using_semver h apps = Inr (h', sv) \<and>
           get_apps_to_upgrade h' sv level unk = Inr (h', sel) \<and>
           res = filter (\<lambda>r. id_in (deref h r) blocked = Inr False)
                   (sel @ filter (\<lambda>r. id_in (deref h r) allowed = Inr True) apps)"
proof -
  from main_select_with_steps[OF assms] obtain sv sel where
    sv: "get_applications_using_semver h apps = Inr (h', sv)" and
    sel: "get_apps_to_upgrade h' sv level unk = Inr (h', sel)" and
    res: "res = filter (\<lambda>r. id_in (deref h' r) blocked = Inr False)
                   (sel @ filter (\<lambda>r. id_in (deref h' r) allowed = Inr True) apps)"
    by blast
  from sv sel res show ?thesis unfolding id_in_after_semver[OF sv] by blast
qed

lemma add_semver_details_dict_no_current:
  assumes "add_semver_details_dict d = Inr d'" and "map_of d ''Version'' = Some v"
    and "SEMVER_PATTERN_match v = Inr False"
  shows "map_of d' ''current_major'' = map_of d ''current_major''"
proof -
  from assms(1) obtain d1 where 1: "add_current_version d = Inr d1" and 2: "add_available_version d1 = Inr d'"
    by (auto simp: add_semver_details_dict_def bind_eq_Inr)
  from 1 assms(2,3) have "d1 = d" by (simp add: add_current_version_def getitem_def)
  with add_available_version_frame[OF 2, of "''current_major''"] show ?thesis by simp
qed

lemma string_valued_lookup:
  assumes "string_valued d" and "map_of d k = Some v"
  shows "\<exists>s. v = StrV s"
proof -
  from assms(2) have "(k, v) \<in> set d" by (rule map_of_SomeD)
  with assms(1) show ?thesis
    by (cases v) (auto simp: string_valued_def list_all_iff)
qed

lemma unknown_not_semver:
  assumes "lower v = ''unknown''"
  shows "SEMVER_PATTERN_match (StrV v) = Inr False"
proof -
  obtain b where b: "SEMVER_PATTERN_match (StrV v) = Inr b"
    by (simp add: SEMVER_PATTERN_match_def)
  with semver_not_unknown[of v] assms show ?thesis by (cases b) auto
qed

lemma count_list_filter_if:
  "count_list (filter P xs) x = (if P x then count_list xs x else 0)"
  by (induction xs) auto

lemma count_list_member: "x \<in> set xs \<Longrightarrow> 1 \<le> count_list xs x"
  by (induction xs) auto

lemma filter_res_subset:
  assumes "filter_res p xs = Inr ys"
  shows "set ys \<subseteq> set xs"
  using filter_res_eq_Inr[OF assms] by auto

lemma uses_semver_True:
  assumes "uses_semver d = Inr True"
  shows "(\<exists>v. map_of d ''Version'' = Some v \<and> SEMVER_PATTERN_match v = Inr True) \<or>
         (\<exists>a. map_of d ''Available'' = Some a \<and> SEMVER_PATTERN_match a = Inr True)"
proof -
  from assms obtain v where v: "map_of d ''Version'' = Some v"
    by (cases "map_of d ''Version''") (simp_all add: uses_semver_def getitem_def)
  from assms v obtain m where m: "SEMVER_PATTERN_match v = Inr m"
    by (cases "SEMVER_PATTERN_match v") (simp_all add: uses_semver_def getitem_def)
  show ?thesis
  proof (cases m)
    case True
    with v m show ?thesis by simp
  next
    case False
    with assms v m have b: "bind (getitem d ''Available'') SEMVER_PATTERN_match = Inr True"
      by (simp add: uses_semver_def getitem_def)
    then obtain a where "map_of d ''Available'' = Some a" "SEMVER_PATTERN_match a = Inr True"
      by (cases "map_of d ''Available''") (simp_all add: getitem_def)
    then show ?thesis by simp
  qed
qed

lemma annotation_changes_parsed_record:
  assumes "add_semver_details_dict d = Inr d'" and "uses_semver d = Inr True"
  shows "\<not> string_valued d'"
proof
  assume sv: "string_valued d'"
  from uses_semver_True[OF assms(2)]
  have "\<exists>k x. map_of d' k = Some (IntV x)"
  proof
    assume "\<exists>v. map_of d ''Version'' = Some v \<and> SEMVER_PATTERN_match v = Inr True"
    then obtain v where "map_of d ''Version'' = Some v" "SEMVER_PATTERN_match v = Inr True" by blast
    from add_semver_details_dict_current[OF assms(1) this] show ?thesis by blast
  next
    assume "\<exists>a. map_of d ''Available'' = Some a \<and> SEMVER_PATTERN_match a = Inr True"
    then obtain a where "map_of d ''Available'' = Some a" "SEMVER_PATTERN_match a = Inr True" by blast
    from add_semver_details_dict_available[OF assms(1) this] show ?thesis by blast
  qed
  then obtain k x where "map_of d' k = Some (IntV x)" by blast
  from string_valued_lookup[OF sv this] show False by simp
qed

subsection \<open>The parser\<close>

lemma get_headers_head:
  "get_headers_and_their_starting_positions (header_row # rest)
     = get_headers_and_their_starting_positions [header_row]"
  by (simp add: get_headers_and_their_starting_positions_def)

lemma get_headers_labels:
  assumes "get_headers_and_their_starting_positions [header_row] = Inr hps"
  shows "map fst hps = header_labels header_row" and "header_labels header_row \<noteq> []"
  using assms
  by (auto simp: get_headers_and_their_starting_positions_def Let_def comp_def
      split: list.splits)

lemma get_headers_ok:
  assumes "header_labels header_row \<noteq> []"
  shows "\<exists>hps. get_headers_and_their_starting_positions [header_row] = Inr hps"
  using assms
  by (auto simp: get_headers_and_their_starting_positions_def Let_def split: list.splits)

lemma get_headers_fail:
  assumes "header_labels header_row = []"
  shows "get_headers_and_their_starting_positions [header_row] = Inl IndexError"
  using assms by (simp add: get_headers_and_their_starting_positions_def)

lemma extract_unfold:
  "extract_applications_from_table output =
     (case take (length (split_crlf output) - 2) (split_crlf output) of
        [] \<Rightarrow> Inl IndexError
      | header_row # rest \<Rightarrow>
          (case get_headers_and_their_starting_positions [header_row] of
             Inl e \<Rightarrow> Inl e
           | Inr hps \<Rightarrow> Inr (map (\<lambda>row. fill_record hps row []) (tl rest))))"
proof (cases "take (length (split_crlf output) - 2) (split_crlf output)")
  case Nil
  show ?thesis
    unfolding extract_applications_from_table_def Let_def Nil
    by (simp add: get_headers_and_their_starting_positions_def)
next
  case (Cons header_row rest)
  have d: "drop 2 (header_row # rest) = tl rest" by (simp add: drop_Suc numeral_2_eq_2)
  show ?thesis
    unfolding extract_applications_from_table_def Let_def Cons d
      get_headers_head[of header_row rest]
    by (simp split: sum.splits)
qed

lemma split_crlf_nonempty: "split_crlf s \<noteq> []"
proof (induction s rule: split_crlf.induct)
  case (3 c d cs)
  then show ?case by (cases "split_crlf (d # cs)") auto
qed simp_all

lemma take_rows_head:
  assumes "take (length ls - 2) ls = header_row # rest"
  shows "header_row = hd ls" and "3 \<le> length ls"
proof -
  from assms have "length ls - 2 \<noteq> 0" by (cases "length ls - 2") auto
  then show "3 \<le> length ls" by simp
  then have "ls \<noteq> []" by auto
  with assms \<open>length ls - 2 \<noteq> 0\<close> show "header_row = hd ls"
    by (cases ls; cases "length ls - 2") auto
qed

lemma keys_setitem_new: "k \<notin> set (keys d) \<Longrightarrow> keys (setitem d k v) = keys d @ [k]"
  by (simp add: keys_setitem)

lemma keys_fill_record:
  "distinct (keys acc @ map fst hps) \<Longrightarrow>
     keys (fill_record hps row acc) = keys acc @ map fst hps"
proof (induction hps row acc rule: fill_record.induct)
  case (1 row acc)
  then show ?case by simp
next
  case (2 key start_pos row acc)
  then show ?case by (simp add: keys_setitem)
next
  case (3 key start_pos key' end_pos rest row acc)
  let ?r = "setitem acc key (StrV (strip (slice row start_pos end_pos)))"
  from "3.prems" have k: "keys ?r = keys acc @ [key]" by (simp add: keys_setitem)
  from "3.prems" have "distinct (keys ?r @ map fst ((key', end_pos) # rest))"
    unfolding k by auto
  from "3.IH"[OF this] k show ?case by simp
qed

lemma extract_records:
  assumes "extract_applications_from_table output = Inr records"
  shows "\<exists>hps. get_headers_and_their_starting_positions [hd (split_crlf output)] = Inr hps \<and>
           records = map (\<lambda>row. fill_record hps row [])
                       (drop 2 (take (length (split_crlf output) - 2) (split_crlf output)))"
proof (cases "take (length (split_crlf output) - 2) (split_crlf output)")
  case Nil
  with assms show ?thesis unfolding extract_unfold by simp
next
  case (Cons header_row rest)
  have d: "drop 2 (header_row # rest) = tl rest" by (simp add: drop_Suc numeral_2_eq_2)
  from take_rows_head(1)[OF Cons] have h: "hd (split_crlf output) = header_row" by simp
  from assms show ?thesis unfolding extract_unfold Cons h d
    by (auto split: sum.splits)
qed

lemma string_valued_setitem:
  "string_valued d \<Longrightarrow> string_valued (setitem d k (StrV s))"
  by (induction d) (auto simp: string_valued_def)

lemma string_valued_fill_record:
  "string_valued acc \<Longrightarrow> string_valued (fill_record hps row acc)"
  by (induction hps row acc rule: fill_record.induct) (simp_all add: string_valued_setitem)

lemma parsed_records_string_valued:
  assumes "extract_applications_from_table output = Inr records" and "r \<in> set records"
  shows "string_valued r"
proof -
  from extract_records[OF assms(1)] assms(2) obtain hps row where "r = fill_record hps row []"
    by auto
  moreover have "string_valued []" by (simp add: string_valued_def)
  ultimately show ?thesis by (simp add: string_valued_fill_record)
qed

lemma slice_beyond:
  assumes "int (length row) \<le> start_pos"
  shows "slice row start_pos end_pos = []" and "slice_from row start_pos = []"
proof -
  from assms have "slice_index (length row) start_pos = length row"
    by (simp add: slice_index_def)
  then show "slice row start_pos end_pos = []" "slice_from row start_pos = []"
    by (simp_all add: slice_def slice_from_def Let_def)
qed

lemma strip_Nil: "strip [] = []"
  by (simp add: strip_def)

lemma fill_record_all_beyond:
  "\<forall>p\<in>set hps. int (length row) \<le> snd p \<Longrightarrow>
     map_of (fill_record hps row acc) k
       = (if k \<in> fst ` set hps then Some (StrV []) else map_of acc k)"
proof (induction hps row acc rule: fill_record.induct)
  case (1 row acc)
  then show ?case by simp
next
  case (2 key start_pos row acc)
  then show ?case by (simp add: map_of_setitem slice_beyond strip_Nil)
next
  case (3 key start_pos key' end_pos rest row acc)
  from "3.prems" have "\<forall>p\<in>set ((key', end_pos) # rest). int (length row) \<le> snd p" by simp
  from "3.IH"[OF this] "3.prems" show ?case
    by (simp add: map_of_setitem slice_beyond strip_Nil)
qed

lemma fill_record_suffix:
  "suf \<noteq> [] \<Longrightarrow> \<exists>acc'. fill_record (pre @ suf) row acc = fill_record suf row acc'"
proof (induction pre arbitrary: acc)
  case Nil
  then show ?case by auto
next
  case (Cons p pre)
  obtain key start_pos where p: "p = (key, start_pos)" by (cases p)
  from Cons.prems obtain key' end_pos rest where q: "pre @ suf = (key', end_pos) # rest"
    by (cases "pre @ suf") auto
  have "fill_record ((p # pre) @ suf) row acc
          = fill_record (pre @ suf) row
              (setitem acc key (StrV (strip (slice row start_pos end_pos))))"
    using p q by simp
  with Cons.IH[OF Cons.prems] show ?case by metis
qed

lemma short_row_columns_empty:
  assumes "sorted (map snd hps)" and "i \<le> j" and "j < length hps"
    and "int (length row) < snd (hps ! i)"
  shows "map_of (fill_record hps row acc) (fst (hps ! j)) = Some (StrV [])"
proof -
  let ?suf = "drop i hps"
  from assms(2,3) have ne: "?suf \<noteq> []" by simp
  have big: "\<forall>p\<in>set ?suf. int (length row) \<le> snd p"
  proof
    fix p assume "p \<in> set ?suf"
    then obtain n where n: "n < length ?suf" "p = ?suf ! n" by (auto simp: in_set_conv_nth)
    then have m: "i + n < length hps" "p = hps ! (i + n)" by simp_all
    from assms(1) m(1) have "map snd hps ! i \<le> map snd hps ! (i + n)"
      by (intro sorted_nth_mono) simp_all
    with m assms(3,2) have "snd (hps ! i) \<le> snd p" by simp
    with assms(4) show "int (length row) \<le> snd p" by simp
  qed
  from assms(2,3) have "hps ! j = ?suf ! (j - i)" by simp
  moreover from assms(2,3) have "j - i < length ?suf" by simp
  ultimately have mem: "fst (hps ! j) \<in> fst ` set ?suf" by (metis imageI nth_mem)
  from fill_record_suffix[OF ne, of "take i hps" row acc] obtain acc' where
    "fill_record hps row acc = fill_record ?suf row acc'" by auto
  with fill_record_all_beyond[OF big, of acc' "fst (hps ! j)"] mem show ?thesis by simp
qed

subsection \<open>Which exceptions the selection raises\<close>

text \<open>The selection steps raise KeyError, TypeError, AttributeError or ValueError,
  never IndexError: an IndexError of \<^verbatim>\<open>main\<close> is the parser's.\<close>

lemma bind_eq_Inl: "(bind m f = Inl e) = (m = Inl e \<or> (\<exists>x. m = Inr x \<and> f x = Inl e))"
  by (cases m) auto

lemma filter_res_eq_Inl:
  "filter_res p xs = Inl e \<Longrightarrow> \<exists>x\<in>set xs. p x = Inl e"
  by (induction xs) (auto split: sum.splits)

lemma getitem_error: "getitem d k = Inl e \<Longrightarrow> e = KeyError"
  by (auto simp: getitem_def split: option.splits)

lemma SEMVER_PATTERN_match_error: "SEMVER_PATTERN_match v = Inl e \<Longrightarrow> e = TypeError"
  by (auto simp: SEMVER_PATTERN_match_def split: pyval.splits)

lemma int_of_str_error: "int_of_str s = Inl e \<Longrightarrow> e = ValueError"
  by (auto simp: int_of_str_def Let_def split: if_splits)

lemma split_version_error: "split_version v = Inl e \<Longrightarrow> e \<noteq> IndexError"
  by (auto simp: split_version_def bind_eq_Inl split: pyval.splits list.splits
      dest!: int_of_str_error)

lemma py_lt_error: "py_lt a b = Inl e \<Longrightarrow> e = TypeError"
  by (cases a; cases b) auto

lemma add_current_version_error: "add_current_version d = Inl e \<Longrightarrow> e \<noteq> IndexError"
  by (auto simp: add_current_version_def bind_eq_Inl split: if_splits
      dest!: getitem_error SEMVER_PATTERN_match_error split_version_error)

lemma add_available_version_error: "add_available_version d = Inl e \<Longrightarrow> e \<noteq> IndexError"
  by (auto simp: add_available_version_def bind_eq_Inl split: if_splits
      dest!: getitem_error SEMVER_PATTERN_match_error split_version_error)

lemma add_semver_details_error: "add_semver_details h app = Inl e \<Longrightarrow> e \<noteq> IndexError"
  by (auto simp: add_semver_details_def add_semver_details_dict_def bind_eq_Inl
      dest!: add_current_version_error add_available_version_error)

lemma uses_semver_error: "uses_semver d = Inl e \<Longrightarrow> e \<noteq> IndexError"
  by (auto simp: uses_semver_def bind_eq_Inl split: if_splits
      dest!: getitem_error SEMVER_PATTERN_match_error)

lemma get_applications_using_semver_error:
  "get_applications_using_semver h apps = Inl e \<Longrightarrow> e \<noteq> IndexError"
proof (induction apps arbitrary: h)
  case Nil
  then show ?case by simp
next
  case (Cons app apps)
  then show ?case
    by (auto split: sum.splits bool.splits dest!: uses_semver_error add_semver_details_error)
qed

lemma has_unknown_current_version_error:
  assumes "has_unknown_current_version d = Inl e"
  shows "e \<noteq> IndexError"
proof (cases "getitem d ''Version''")
  case (Inl e')
  with assms getitem_error[OF Inl] show ?thesis
    by (simp add: has_unknown_current_version_def)
next
  case (Inr v)
  with assms show ?thesis
    by (cases v) (auto simp: has_unknown_current_version_def)
qed

lemma upgrade_condition_errors:
  "has_patch_upgrade d = Inl e \<Longrightarrow> e \<noteq> IndexError"
  "has_minor_upgrade d = Inl e \<Longrightarrow> e \<noteq> IndexError"
  "has_major_upgrade d = Inl e \<Longrightarrow> e \<noteq> IndexError"
  by (auto simp: has_patch_upgrade_def has_minor_upgrade_def has_major_upgrade_def
      bind_eq_Inl split: if_splits dest!: getitem_error py_lt_error)

lemma get_apps_to_upgrade_error:
  "get_apps_to_upgrade h apps level unk = Inl e \<Longrightarrow> e \<noteq> IndexError"
  by (auto simp: get_apps_to_upgrade_def bind_eq_Inl Let_def split: if_splits
      dest!: get_applications_using_semver_error filter_res_eq_Inl upgrade_condition_errors
        has_unknown_current_version_error)

lemma id_in_error: "id_in d ids = Inl e \<Longrightarrow> e = KeyError"
  by (auto simp: id_in_def bind_eq_Inl dest!: getitem_error)

lemma main_select_with_error:
  "main_select_with allowed blocked h apps level unk = Inl e \<Longrightarrow> e \<noteq> IndexError"
  by (auto simp: main_select_with_def add_allowed_updates_with_def
      remove_blocked_updates_with_def bind_eq_Inl
      dest!: get_applications_using_semver_error get_apps_to_upgrade_error
        filter_res_eq_Inl id_in_error)

lemma index_error_only_from_parser:
  assumes "main_apps_to_upgrade output level unknowns = Inl IndexError"
  shows "extract_applications_from_table output = Inl IndexError"
  using assms
  by (auto simp: main_apps_to_upgrade_def main_select_def bind_eq_Inl
      dest!: main_select_with_error)

section \<open>Block-list\<close>

text \<open>
  Claim C3. Whatever the records, the allow-list, the block-list, the level and the
  unknown-versions flag: when the selection of \<^verbatim>\<open>main\<close> returns, no selected record has an
  identifier of the block-list, also when the allow-list holds that identifier. The
  block-list is applied last, to the list the allow-list step returned.\<close>

theorem blocked_never_selected:
  assumes "main_select_with allowed blocked h applications level unknowns = Inr (h', result)"
    and "r \<in> set result" and "s \<in> blocked"
  shows "getitem (deref h' r) ''Id'' \<noteq> Inr (StrV s)"
proof
  assume i: "getitem (deref h' r) ''Id'' = Inr (StrV s)"
  from main_select_with_steps[OF assms(1)] assms(2)
  have "id_in (deref h' r) blocked = Inr False" by auto
  with i assms(3) show False by (simp add: id_in_def)
qed

theorem blocked_never_selected_witness:
  "main_select_with {''X'', ''Y''} {''X''}
     [[(''Id'', StrV ''X''), (''Version'', StrV ''1''), (''Available'', StrV ''2'')],
      [(''Id'', StrV ''Y''), (''Version'', StrV ''1''), (''Available'', StrV ''2'')]]
     [0, 1] ''patch'' False
   = Inr ([[(''Id'', StrV ''X''), (''Version'', StrV ''1''), (''Available'', StrV ''2'')],
           [(''Id'', StrV ''Y''), (''Version'', StrV ''1''), (''Available'', StrV ''2'')]], [1])
   \<and> 1 \<in> set [1::nat] \<and> ''X'' \<in> {''X''}
   \<and> getitem (deref [[(''Id'', StrV ''X''), (''Version'', StrV ''1''), (''Available'', StrV ''2'')],
           [(''Id'', StrV ''Y''), (''Version'', StrV ''1''), (''Available'', StrV ''2'')]] 1) ''Id''
       \<noteq> Inr (StrV ''X'')"
proof -
  have run: "main_select_with {''X'', ''Y''} {''X''}
     [[(''Id'', StrV ''X''), (''Version'', StrV ''1''), (''Available'', StrV ''2'')],
      [(''Id'', StrV ''Y''), (''Version'', StrV ''1''), (''Available'', StrV ''2'')]]
     [0, 1] ''patch'' False
   = Inr ([[(''Id'', StrV ''X''), (''Version'', StrV ''1''), (''Available'', StrV ''2'')],
           [(''Id'', StrV ''Y''), (''Version'', StrV ''1''), (''Available'', StrV ''2'')]], [1])"
    by code_simp
  have m: "1 \<in> set [1::nat]" "''X'' \<in> {''X''}" by simp_all
  from blocked_never_selected[OF run m] run m show ?thesis by blast
qed

section \<open>Upgrade levels\<close>

text \<open>
  Claim C8. On the same records and with the same unknown-versions flag, what
  \<^verbatim>\<open>get_apps_to_upgrade\<close> selects at level \<open>patch\<close> is selected at level \<open>minor\<close>, and what it
  selects at level \<open>minor\<close> is selected at level \<open>major\<close>. The three calls succeed
  together and leave the same store, because the four comprehensions are evaluated
  before the level is looked at.\<close>

theorem level_monotone:
  assumes "get_apps_to_upgrade h applications ''patch'' unknowns = Inr (h', patch_result)"
  shows "\<exists>minor_result major_result.
           get_apps_to_upgrade h applications ''minor'' unknowns = Inr (h', minor_result) \<and>
           get_apps_to_upgrade h applications ''major'' unknowns = Inr (h', major_result) \<and>
           set patch_result \<subseteq> set minor_result \<and> set minor_result \<subseteq> set major_result"
proof -
  have "lower ''patch'' \<noteq> ''all''" by (simp add: lower_levels)
  from get_apps_to_upgrade_lists[OF assms this] obtain sv P Mi Ma U where
    sv: "get_applications_using_semver h applications = Inr (h', sv)" and
    P: "filter_res (\<lambda>app. has_patch_upgrade (deref h' app)) sv = Inr P" and
    Mi: "filter_res (\<lambda>app. has_minor_upgrade (deref h' app)) sv = Inr Mi" and
    Ma: "filter_res (\<lambda>app. has_major_upgrade (deref h' app)) sv = Inr Ma" and
    U: "filter_res (\<lambda>app. has_unknown_current_version (deref h' app)) sv = Inr U" and
    r: "patch_result = P @ (if unknowns then U else [])"
    by auto
  have mi: "get_apps_to_upgrade h applications ''minor'' unknowns
              = Inr (h', (Mi @ P) @ (if unknowns then U else []))"
    using sv P Mi Ma U by (simp add: get_apps_to_upgrade_def lower_levels)
  have ma: "get_apps_to_upgrade h applications ''major'' unknowns
              = Inr (h', (Ma @ Mi @ P) @ (if unknowns then U else []))"
    using sv P Mi Ma U by (simp add: get_apps_to_upgrade_def lower_levels)
  show ?thesis unfolding mi ma r by auto
qed

theorem level_monotone_witness:
  "get_apps_to_upgrade example_store [0, 1, 2, 3, 4, 5, 6, 7, 8] ''patch'' False
     = Inr (example_store_annotated, [0, 6, 7]) \<and>
   (\<exists>minor_result major_result.
      get_apps_to_upgrade example_store [0, 1, 2, 3, 4, 5, 6, 7, 8] ''minor'' False
        = Inr (example_store_annotated, minor_result) \<and>
      get_apps_to_upgrade example_store [0, 1, 2, 3, 4, 5, 6, 7, 8] ''major'' False
        = Inr (example_store_annotated, major_result) \<and>
      set [0, 6, 7] \<subseteq> set minor_result \<and> set minor_result \<subseteq> set major_result)"
proof -
  have run: "get_apps_to_upgrade example_store [0, 1, 2, 3, 4, 5, 6, 7, 8] ''patch'' False
     = Inr (example_store_annotated, [0, 6, 7])"
    by code_simp
  from level_monotone[OF run] run show ?thesis by (intro conjI)
qed

text \<open>
  Claim C7. A record whose \<open>Version\<close> and \<open>Available\<close> both match the pattern and give the
  same three integers is not in the result of \<^verbatim>\<open>get_apps_to_upgrade\<close> at level \<open>patch\<close>,
  \<open>minor\<close> or \<open>major\<close>, with or without the unknown-versions flag: no strict inequality
  holds, and a version that matches the pattern is not the word \<open>unknown\<close>.\<close>

theorem equal_versions_not_selected:
  assumes "get_apps_to_upgrade h applications level unknowns = Inr (h', result)"
    and "level = ''patch'' \<or> level = ''minor'' \<or> level = ''major''"
    and "getitem (deref h r) ''Version'' = Inr (StrV v)"
    and "getitem (deref h r) ''Available'' = Inr (StrV a)"
    and "SEMVER_PATTERN_match (StrV v) = Inr True"
    and "SEMVER_PATTERN_match (StrV a) = Inr True"
    and "split_version (StrV v) = split_version (StrV a)"
  shows "r \<notin> set result"
proof
  assume r: "r \<in> set result"
  from assms(2) have l: "lower level \<noteq> ''all''" by (auto simp: lower_levels)
  from get_apps_to_upgrade_member[OF assms(1) l r] have
    ann: "add_semver_details_dict (deref h r) = Inr (deref h' r)" and
    sel: "has_patch_upgrade (deref h' r) = Inr True \<or> has_minor_upgrade (deref h' r) = Inr True \<or>
          has_major_upgrade (deref h' r) = Inr True \<or>
          has_unknown_current_version (deref h' r) = Inr True"
    by simp_all
  from assms(3,4) have va: "map_of (deref h r) ''Version'' = Some (StrV v)"
    "map_of (deref h r) ''Available'' = Some (StrV a)"
    by (simp_all add: getitem_eq_Inr)
  from add_semver_details_dict_current[OF ann va(1) assms(5)] obtain x y z where
    c: "split_version (StrV v) = Inr (x, y, z)"
      "map_of (deref h' r) ''current_major'' = Some (IntV x)"
      "map_of (deref h' r) ''current_minor'' = Some (IntV y)"
      "map_of (deref h' r) ''current_patch'' = Some (IntV z)" by blast
  from add_semver_details_dict_available[OF ann va(2) assms(6)] c(1) assms(7) have
    a: "map_of (deref h' r) ''available_major'' = Some (IntV x)"
      "map_of (deref h' r) ''available_minor'' = Some (IntV y)"
      "map_of (deref h' r) ''available_patch'' = Some (IntV z)" by auto
  have "map_of (deref h' r) ''Version'' = Some (StrV v)"
    using va(1) by (simp add: add_semver_details_dict_frame[OF ann] annotation_keys_def)
  then have "has_unknown_current_version (deref h' r) = Inr (lower v = ''unknown'')"
    by (simp add: has_unknown_current_version_def getitem_def)
  with semver_not_unknown[OF assms(5)] have "has_unknown_current_version (deref h' r) = Inr False"
    by simp
  with sel upgrade_conditions_on_integers[OF c(2-4) a] show False by simp
qed

theorem equal_versions_not_selected_witness:
  "get_apps_to_upgrade example_store [0, 1, 2, 3, 4, 5, 6, 7, 8] ''major'' True
     = Inr (example_store_annotated, [2, 1, 0, 6, 7, 4]) \<and>
   getitem (deref example_store 3) ''Version'' = Inr (StrV ''1.2.3'') \<and>
   getitem (deref example_store 3) ''Available'' = Inr (StrV ''1.02.3'') \<and>
   SEMVER_PATTERN_match (StrV ''1.2.3'') = Inr True \<and>
   SEMVER_PATTERN_match (StrV ''1.02.3'') = Inr True \<and>
   split_version (StrV ''1.2.3'') = split_version (StrV ''1.02.3'') \<and>
   3 \<notin> set [2, 1, 0, 6, 7, 4::nat]"
proof -
  have run: "get_apps_to_upgrade example_store [0, 1, 2, 3, 4, 5, 6, 7, 8] ''major'' True
     = Inr (example_store_annotated, [2, 1, 0, 6, 7, 4])"
    by code_simp
  have v: "getitem (deref example_store 3) ''Version'' = Inr (StrV ''1.2.3'')"
    and a: "getitem (deref example_store 3) ''Available'' = Inr (StrV ''1.02.3'')"
    and mv: "SEMVER_PATTERN_match (StrV ''1.2.3'') = Inr True"
    and ma: "SEMVER_PATTERN_match (StrV ''1.02.3'') = Inr True"
    and eq: "split_version (StrV ''1.2.3'') = split_version (StrV ''1.02.3'')"
    by code_simp+
  have l: "''major'' = ''patch'' \<or> ''major'' = ''minor'' \<or> ''major'' = ''major''" by simp
  from equal_versions_not_selected[OF run l v a mv ma eq] run v a mv ma eq
  show ?thesis by (intro conjI)
qed

section \<open>Unknown current versions\<close>

text \<open>
  Claim C1, as amended. Take a record as the parser builds it (strings only) whose
  \<open>Version\<close> is the word \<open>unknown\<close> in any case, whose \<open>Available\<close> matches the pattern and
  whose identifier is on neither list. At every level other than \<open>all\<close>, when the selection
  of \<^verbatim>\<open>main\<close> returns, the record is selected exactly when the unknown-versions flag is
  set. At level \<open>all\<close> the flag is never looked at: the counterexample shows the record
  selected with the flag off.\<close>

theorem unknown_version_selected_iff:
  assumes "main_select_with allowed blocked h applications level unknowns = Inr (h', result)"
    and "lower level \<noteq> ''all''"
    and "r \<in> set applications"
    and "string_valued (deref h r)"
    and "getitem (deref h r) ''Version'' = Inr (StrV v)" and "lower v = ''unknown''"
    and "getitem (deref h r) ''Available'' = Inr (StrV a)"
    and "SEMVER_PATTERN_match (StrV a) = Inr True"
    and "getitem (deref h r) ''Id'' = Inr (StrV i)" and "i \<notin> allowed" and "i \<notin> blocked"
  shows "(r \<in> set result) = unknowns"
proof -
  let ?d = "deref h r" and ?d' = "deref h' r"
  from main_select_with_result[OF assms(1)] obtain sv sel where
    sv: "get_applications_using_semver h applications = Inr (h', sv)" and
    sel: "get_apps_to_upgrade h' sv level unknowns = Inr (h', sel)" and
    res: "result = filter (\<lambda>r. id_in (deref h r) blocked = Inr False)
                   (sel @ filter (\<lambda>r. id_in (deref h r) allowed = Inr True) applications)"
    by blast
  note E = get_applications_using_semver_effect[OF sv]
  have nv: "SEMVER_PATTERN_match (StrV v) = Inr False" by (rule unknown_not_semver[OF assms(6)])
  have us: "uses_semver ?d = Inr True"
    using assms(5,7,8) nv by (simp add: uses_semver_def)
  with E assms(3) have rsv: "r \<in> set sv" by simp
  with E have ann: "add_semver_details_dict ?d = Inr ?d'" by auto
  have ids: "id_in ?d blocked = Inr False" "id_in ?d allowed = Inr False"
    using assms(9-11) by (simp_all add: id_in_def)
  from res ids have mem: "(r \<in> set result) = (r \<in> set sel)" by auto
  from get_apps_to_upgrade_lists[OF sel assms(2)] get_applications_using_semver_stable[OF sv]
  obtain P Mi Ma U where
    P: "filter_res (\<lambda>app. has_patch_upgrade (deref h' app)) sv = Inr P" and
    Mi: "filter_res (\<lambda>app. has_minor_upgrade (deref h' app)) sv = Inr Mi" and
    Ma: "filter_res (\<lambda>app. has_major_upgrade (deref h' app)) sv = Inr Ma" and
    U: "filter_res (\<lambda>app. has_unknown_current_version (deref h' app)) sv = Inr U" and
    sl: "sel = (if level = ''patch'' then P else if level = ''minor'' then Mi @ P
            else if level = ''major'' then Ma @ Mi @ P else []) @ (if unknowns then U else [])"
    by auto
  from assms(5,7) have va: "map_of ?d ''Version'' = Some (StrV v)"
    "map_of ?d ''Available'' = Some (StrV a)" by (simp_all add: getitem_eq_Inr)
  have "map_of ?d' ''Version'' = Some (StrV v)"
    using va(1) by (simp add: add_semver_details_dict_frame[OF ann] annotation_keys_def)
  then have "has_unknown_current_version ?d' = Inr True"
    using assms(6) by (simp add: has_unknown_current_version_def getitem_def)
  with rsv filter_res_eq_Inr[OF U] have rU: "r \<in> set U" by simp
  from add_semver_details_dict_available[OF ann va(2) assms(8)] obtain x where
    am: "map_of ?d' ''available_major'' = Some (IntV x)" by blast
  have cm: "map_of ?d' ''current_major'' = map_of ?d ''current_major''"
    by (rule add_semver_details_dict_no_current[OF ann va(1) nv])
  have no: "has_patch_upgrade ?d' \<noteq> Inr True \<and> has_minor_upgrade ?d' \<noteq> Inr True \<and>
            has_major_upgrade ?d' \<noteq> Inr True"
  proof (cases "map_of ?d ''current_major''")
    case None
    with cm show ?thesis
      by (simp add: has_patch_upgrade_def has_minor_upgrade_def has_major_upgrade_def has_key_def)
  next
    case (Some c)
    with string_valued_lookup[OF assms(4)] obtain s where "c = StrV s" by blast
    with Some cm am show ?thesis
      by (simp add: has_patch_upgrade_def has_minor_upgrade_def has_major_upgrade_def
          has_key_def getitem_def)
  qed
  with filter_res_eq_Inr[OF P] filter_res_eq_Inr[OF Mi] filter_res_eq_Inr[OF Ma]
  have "r \<notin> set P" "r \<notin> set Mi" "r \<notin> set Ma" by simp_all
  with sl rU have "(r \<in> set sel) = unknowns" by simp
  with mem show ?thesis by simp
qed

theorem unknown_version_selected_iff_witness:
  "main_select_with get_allowed_updates get_blocked_updates example_store
     [0, 1, 2, 3, 4, 5, 6, 7, 8] ''patch'' True = Inr (example_store_annotated, [0, 7, 4, 5, 7]) \<and>
   lower ''patch'' \<noteq> ''all'' \<and> 4 \<in> set [0, 1, 2, 3, 4, 5, 6, 7, 8] \<and>
   string_valued (deref example_store 4) \<and>
   getitem (deref example_store 4) ''Version'' = Inr (StrV ''Unknown'') \<and>
   lower ''Unknown'' = ''unknown'' \<and>
   getitem (deref example_store 4) ''Available'' = Inr (StrV ''2.0.0'') \<and>
   SEMVER_PATTERN_match (StrV ''2.0.0'') = Inr True \<and>
   getitem (deref example_store 4) ''Id'' = Inr (StrV ''Unk.Unk'') \<and>
   ''Unk.Unk'' \<notin> get_allowed_updates \<and> ''Unk.Unk'' \<notin> get_blocked_updates \<and>
   (4 \<in> set [0, 7, 4, 5, 7::nat]) = True"
proof -
  have run: "main_select_with get_allowed_updates get_blocked_updates example_store
     [0, 1, 2, 3, 4, 5, 6, 7, 8] ''patch'' True = Inr (example_store_annotated, [0, 7, 4, 5, 7])"
    by code_simp
  have l: "lower ''patch'' \<noteq> ''all''" by code_simp
  have m: "4 \<in> set [0, 1, 2, 3, 4, 5, 6, 7, 8]" by simp
  have sv: "string_valued (deref example_store 4)" by code_simp
  have v: "getitem (deref example_store 4) ''Version'' = Inr (StrV ''Unknown'')" by code_simp
  have u: "lower ''Unknown'' = ''unknown''" by code_simp
  have a: "getitem (deref example_store 4) ''Available'' = Inr (StrV ''2.0.0'')" by code_simp
  have ma: "SEMVER_PATTERN_match (StrV ''2.0.0'') = Inr True" by code_simp
  have i: "getitem (deref example_store 4) ''Id'' = Inr (StrV ''Unk.Unk'')" by code_simp
  have na: "''Unk.Unk'' \<notin> get_allowed_updates" by (simp add: get_allowed_updates_def)
  have nb: "''Unk.Unk'' \<notin> get_blocked_updates" by (simp add: get_blocked_updates_def)
  from unknown_version_selected_iff[OF run l m sv v u a ma i na nb] run l m sv v u a ma i na nb
  show ?thesis by (intro conjI)
qed

theorem unknown_version_at_level_all_counterexample:
  "main_select example_store [0, 1, 2, 3, 4, 5, 6, 7, 8] ''all'' False
     = Inr (example_store_annotated, [0, 1, 2, 3, 4, 7, 5, 7]) \<and>
   deref example_store 4
     = [(''Id'', StrV ''Unk.Unk''), (''Version'', StrV ''Unknown''), (''Available'', StrV ''2.0.0'')]"
  by code_simp

section \<open>The level all\<close>

text \<open>
  Claim C2, as amended. At level \<open>all\<close> the selection of \<^verbatim>\<open>main\<close> returns the applications
  whose \<open>Version\<close> or \<open>Available\<close> matches the pattern, in input order, then the
  allow-listed applications, in input order, without those of the block-list.
  \<^verbatim>\<open>main\<close> hands \<^verbatim>\<open>get_apps_to_upgrade\<close> the list it has already filtered with
  \<^verbatim>\<open>get_applications_using_semver\<close>, so an application of which neither field matches is
  selected only through the allow-list; the applications that match carry the integers
  \<^verbatim>\<open>add_semver_details\<close> wrote into them, the others are as parsed.\<close>

theorem all_level_result:
  assumes "main_select_with allowed blocked h applications level unknowns = Inr (h', result)"
    and "lower level = ''all''"
  shows "result = filter (\<lambda>r. id_in (deref h r) blocked = Inr False)
           (filter (\<lambda>r. uses_semver (deref h r) = Inr True) applications @
            filter (\<lambda>r. id_in (deref h r) allowed = Inr True) applications) \<and>
         (\<forall>r. if r \<in> set applications \<and> uses_semver (deref h r) = Inr True
              then add_semver_details_dict (deref h r) = Inr (deref h' r)
              else deref h' r = deref h r)"
proof -
  from main_select_with_result[OF assms(1)] obtain sv sel where
    sv: "get_applications_using_semver h applications = Inr (h', sv)" and
    sel: "get_apps_to_upgrade h' sv level unknowns = Inr (h', sel)" and
    res: "result = filter (\<lambda>r. id_in (deref h r) blocked = Inr False)
                   (sel @ filter (\<lambda>r. id_in (deref h r) allowed = Inr True) applications)"
    by blast
  note E = get_applications_using_semver_effect[OF sv]
  from get_apps_to_upgrade_all[OF get_applications_using_semver_stable[OF sv] assms(2)] sel
  have "sel = sv" by simp
  with res E have 1: "result = filter (\<lambda>r. id_in (deref h r) blocked = Inr False)
           (filter (\<lambda>r. uses_semver (deref h r) = Inr True) applications @
            filter (\<lambda>r. id_in (deref h r) allowed = Inr True) applications)" by simp
  from E have m: "(r \<in> set sv) = (r \<in> set applications \<and> uses_semver (deref h r) = Inr True)" for r
    by auto
  from E have 2: "\<forall>r. if r \<in> set applications \<and> uses_semver (deref h r) = Inr True
              then add_semver_details_dict (deref h r) = Inr (deref h' r)
              else deref h' r = deref h r"
    unfolding m by blast
  from 1 2 show ?thesis by (rule conjI)
qed

theorem all_level_result_witness:
  "main_select_with get_allowed_updates get_blocked_updates example_store
     [0, 1, 2, 3, 4, 5, 6, 7, 8] ''all'' True = Inr (example_store_annotated, [0, 1, 2, 3, 4, 7, 5, 7]) \<and>
   lower ''all'' = ''all'' \<and>
   [0, 1, 2, 3, 4, 7, 5, 7] =
     filter (\<lambda>r. id_in (deref example_store r) get_blocked_updates = Inr False)
       (filter (\<lambda>r. uses_semver (deref example_store r) = Inr True) [0, 1, 2, 3, 4, 5, 6, 7, 8] @
        filter (\<lambda>r. id_in (deref example_store r) get_allowed_updates = Inr True) [0, 1, 2, 3, 4, 5, 6, 7, 8]) \<and>
   (\<forall>r. if r \<in> set [0, 1, 2, 3, 4, 5, 6, 7, 8] \<and> uses_semver (deref example_store r) = Inr True
        then add_semver_details_dict (deref example_store r) = Inr (deref example_store_annotated r)
        else deref example_store_annotated r = deref example_store r)"
proof -
  have run: "main_select_with get_allowed_updates get_blocked_updates example_store
     [0, 1, 2, 3, 4, 5, 6, 7, 8] ''all'' True = Inr (example_store_annotated, [0, 1, 2, 3, 4, 7, 5, 7])"
    by code_simp
  have l: "lower ''all'' = ''all''" by code_simp
  from all_level_result[OF run l] run l show ?thesis by (intro conjI) blast+
qed

theorem all_level_drops_other_versions_counterexample:
  "extract_applications_from_table example_table_calver
     = Inr [[(''Name'', StrV ''Cal''), (''Id'', StrV ''Cal.Ver''), (''Version'', StrV ''24.1''),
             (''Available'', StrV ''24.2''), (''Source'', StrV ''winget'')]] \<and>
   main_apps_to_upgrade example_table_calver ''all'' False
     = Inr ([[(''Name'', StrV ''Cal''), (''Id'', StrV ''Cal.Ver''), (''Version'', StrV ''24.1''),
              (''Available'', StrV ''24.2''), (''Source'', StrV ''winget'')]], [])"
  by code_simp

section \<open>Annotation writes into the parsed records\<close>

text \<open>
  Claim C4, as amended. \<^verbatim>\<open>add_semver_details\<close> assigns to the dictionary it is given;
  there is no copy. When the selection of \<^verbatim>\<open>main\<close> returns, the store has the same
  addresses; every application of the input list whose \<open>Version\<close> or \<open>Available\<close> matches
  the pattern holds what \<^verbatim>\<open>add_semver_details\<close> made of it, which differs from the parsed
  record when that held strings only; every other record is unchanged.\<close>

theorem classification_annotates_in_place:
  assumes "main_select_with allowed blocked h applications level unknowns = Inr (h', result)"
  shows "length h' = length h \<and>
         (\<forall>r. if r \<in> set applications \<and> uses_semver (deref h r) = Inr True
              then add_semver_details_dict (deref h r) = Inr (deref h' r) \<and>
                   (string_valued (deref h r) \<longrightarrow> deref h' r \<noteq> deref h r)
              else deref h' r = deref h r)"
proof -
  from main_select_with_result[OF assms(1)] obtain sv where
    sv: "get_applications_using_semver h applications = Inr (h', sv)" by blast
  note E = get_applications_using_semver_effect[OF sv]
  from E have m: "(r \<in> set sv) = (r \<in> set applications \<and> uses_semver (deref h r) = Inr True)" for r
    by auto
  have "if r \<in> set applications \<and> uses_semver (deref h r) = Inr True
              then add_semver_details_dict (deref h r) = Inr (deref h' r) \<and>
                   (string_valued (deref h r) \<longrightarrow> deref h' r \<noteq> deref h r)
              else deref h' r = deref h r" for r
  proof (cases "r \<in> set sv")
    case True
    with E have a: "add_semver_details_dict (deref h r) = Inr (deref h' r)" by auto
    from True m have "uses_semver (deref h r) = Inr True" by simp
    from annotation_changes_parsed_record[OF a this]
    have "string_valued (deref h r) \<longrightarrow> deref h' r \<noteq> deref h r" by auto
    moreover from True m have "r \<in> set applications \<and> uses_semver (deref h r) = Inr True"
      by simp
    ultimately show ?thesis using a by (simp only: if_True simp_thms)
  next
    case False
    with E have u: "deref h' r = deref h r" by auto
    from False m have "\<not> (r \<in> set applications \<and> uses_semver (deref h r) = Inr True)"
      by simp
    then show ?thesis using u by (simp only: if_False)
  qed
  with E show ?thesis by blast
qed

theorem classification_annotates_in_place_witness:
  "main_select_with get_allowed_updates get_blocked_updates example_store
     [0, 1, 2, 3, 4, 5, 6, 7, 8] ''minor'' False = Inr (example_store_annotated, [1, 0, 7, 5, 7]) \<and>
   length example_store_annotated = length example_store \<and>
   (\<forall>r. if r \<in> set [0, 1, 2, 3, 4, 5, 6, 7, 8] \<and> uses_semver (deref example_store r) = Inr True
        then add_semver_details_dict (deref example_store r) = Inr (deref example_store_annotated r) \<and>
             (string_valued (deref example_store r) \<longrightarrow>
                deref example_store_annotated r \<noteq> deref example_store r)
        else deref example_store_annotated r = deref example_store r)"
proof -
  have run: "main_select_with get_allowed_updates get_blocked_updates example_store
     [0, 1, 2, 3, 4, 5, 6, 7, 8] ''minor'' False = Inr (example_store_annotated, [1, 0, 7, 5, 7])"
    by code_simp
  from classification_annotates_in_place[OF run] run show ?thesis by (intro conjI) blast+
qed

theorem parsed_record_is_mutated_counterexample:
  "extract_applications_from_table example_table_semver
     = Inr [[(''Name'', StrV ''Foo''), (''Id'', StrV ''Foo.Foo''), (''Version'', StrV ''1.0.0''),
             (''Available'', StrV ''1.1.0''), (''Source'', StrV ''winget'')]] \<and>
   main_apps_to_upgrade example_table_semver ''patch'' False
     = Inr ([[(''Name'', StrV ''Foo''), (''Id'', StrV ''Foo.Foo''), (''Version'', StrV ''1.0.0''),
              (''Available'', StrV ''1.1.0''), (''Source'', StrV ''winget''),
              (''current_major'', IntV 1), (''current_minor'', IntV 0), (''current_patch'', IntV 0),
              (''available_major'', IntV 1), (''available_minor'', IntV 1),
              (''available_patch'', IntV 0)]], [])"
  by code_simp

section \<open>Allow-listed and selected\<close>

text \<open>
  Claim C10, as amended. The allow-list step appends to the selection, without looking
  at what is already there. An application whose identifier is on the allow-list and
  not on the block-list, which \<^verbatim>\<open>get_apps_to_upgrade\<close> selects at the level (at level \<open>all\<close>
  it selects every application) and whose \<open>Version\<close> or \<open>Available\<close> matches the pattern,
  occurs at least twice in the final list. At level \<open>all\<close> an allow-listed application of
  which neither field matches occurs once: \<^verbatim>\<open>main\<close> has filtered it out before the level
  step.\<close>

theorem allowed_and_selected_twice:
  assumes "main_select_with allowed blocked h applications level unknowns = Inr (h', result)"
    and "get_apps_to_upgrade h applications level unknowns = Inr (hs, selected)"
    and "r \<in> set selected"
    and "uses_semver (deref h r) = Inr True"
    and "getitem (deref h r) ''Id'' = Inr (StrV i)" and "i \<in> allowed" and "i \<notin> blocked"
  shows "2 \<le> count_list result r"
proof -
  from main_select_with_result[OF assms(1)] obtain sv sel where
    sv: "get_applications_using_semver h applications = Inr (h', sv)" and
    sel: "get_apps_to_upgrade h' sv level unknowns = Inr (h', sel)" and
    res: "result = filter (\<lambda>r. id_in (deref h r) blocked = Inr False)
                   (sel @ filter (\<lambda>r. id_in (deref h r) allowed = Inr True) applications)"
    by blast
  note E = get_applications_using_semver_effect[OF sv]
  have svsub: "set sv \<subseteq> set applications" using E by auto
  have rsel: "r \<in> set sel \<and> r \<in> set applications"
  proof (cases "lower level = ''all''")
    case True
    from get_apps_to_upgrade_all[OF sv True] assms(2) have "selected = applications" by simp
    with assms(3) have ra: "r \<in> set applications" by simp
    with E assms(4) have "r \<in> set sv" by simp
    moreover from get_apps_to_upgrade_all[OF get_applications_using_semver_stable[OF sv] True] sel
    have "sel = sv" by simp
    ultimately show ?thesis using ra by simp
  next
    case False
    from get_apps_to_upgrade_twice[OF sv False] sel assms(2) have s: "sel = selected" by simp
    from get_apps_to_upgrade_lists[OF assms(2) False] sv obtain P Mi Ma U where
      P: "filter_res (\<lambda>app. has_patch_upgrade (deref h' app)) sv = Inr P" and
      Mi: "filter_res (\<lambda>app. has_minor_upgrade (deref h' app)) sv = Inr Mi" and
      Ma: "filter_res (\<lambda>app. has_major_upgrade (deref h' app)) sv = Inr Ma" and
      U: "filter_res (\<lambda>app. has_unknown_current_version (deref h' app)) sv = Inr U" and
      sl: "selected = (if level = ''patch'' then P else if level = ''minor'' then Mi @ P
            else if level = ''major'' then Ma @ Mi @ P else []) @ (if unknowns then U else [])"
      by auto
    from sl assms(3) have "r \<in> set P \<union> set Mi \<union> set Ma \<union> set U"
      by (auto split: if_splits)
    with filter_res_subset[OF P] filter_res_subset[OF Mi] filter_res_subset[OF Ma]
      filter_res_subset[OF U] have "r \<in> set sv" by blast
    with svsub s assms(3) show ?thesis by auto
  qed
  have ids: "id_in (deref h r) blocked = Inr False" "id_in (deref h r) allowed = Inr True"
    using assms(5-7) by (simp_all add: id_in_def)
  have c1: "1 \<le> count_list sel r" using rsel count_list_member[of r sel] by blast
  have "1 \<le> count_list applications r"
    using rsel count_list_member[of r applications] by blast
  with ids have c2: "1 \<le> count_list (filter (\<lambda>r. id_in (deref h r) allowed = Inr True) applications) r"
    by (simp add: count_list_filter_if)
  have "count_list result r =
          count_list sel r + count_list (filter (\<lambda>r. id_in (deref h r) allowed = Inr True) applications) r"
    unfolding res using ids by (simp add: count_list_filter_if)
  with c1 c2 show ?thesis by simp
qed

theorem allowed_and_selected_twice_witness:
  "main_select_with get_allowed_updates get_blocked_updates example_store
     [0, 1, 2, 3, 4, 5, 6, 7, 8] ''patch'' False = Inr (example_store_annotated, [0, 7, 5, 7]) \<and>
   get_apps_to_upgrade example_store [0, 1, 2, 3, 4, 5, 6, 7, 8] ''patch'' False
     = Inr (example_store_annotated, [0, 6, 7]) \<and>
   7 \<in> set [0, 6, 7::nat] \<and>
   uses_semver (deref example_store 7) = Inr True \<and>
   getitem (deref example_store 7) ''Id'' = Inr (StrV ''Python.Python.3'') \<and>
   ''Python.Python.3'' \<in> get_allowed_updates \<and> ''Python.Python.3'' \<notin> get_blocked_updates \<and>
   2 \<le> count_list [0, 7, 5, 7::nat] 7"
proof -
  have run: "main_select_with get_allowed_updates get_blocked_updates example_store
     [0, 1, 2, 3, 4, 5, 6, 7, 8] ''patch'' False = Inr (example_store_annotated, [0, 7, 5, 7])"
    by code_simp
  have lev: "get_apps_to_upgrade example_store [0, 1, 2, 3, 4, 5, 6, 7, 8] ''patch'' False
     = Inr (example_store_annotated, [0, 6, 7])"
    by code_simp
  have m: "7 \<in> set [0, 6, 7::nat]" by simp
  have us: "uses_semver (deref example_store 7) = Inr True" by code_simp
  have i: "getitem (deref example_store 7) ''Id'' = Inr (StrV ''Python.Python.3'')" by code_simp
  have ia: "''Python.Python.3'' \<in> get_allowed_updates" by (simp add: get_allowed_updates_def)
  have nb: "''Python.Python.3'' \<notin> get_blocked_updates" by (simp add: get_blocked_updates_def)
  from allowed_and_selected_twice[OF run lev m us i ia nb] run lev m us i ia nb
  show ?thesis by (intro conjI)
qed

theorem allowed_at_level_all_once_counterexample:
  "main_select
     [[(''Id'', StrV ''Python.Python.3''), (''Version'', StrV ''3.11''), (''Available'', StrV ''3.12'')]]
     [0] ''all'' False
   = Inr ([[(''Id'', StrV ''Python.Python.3''), (''Version'', StrV ''3.11''),
            (''Available'', StrV ''3.12'')]], [0]) \<and>
   count_list [0::nat] 0 = 1"
  by code_simp

section \<open>The parser: failure\<close>

text \<open>
  Claim C5. When the captured text has fewer than two lines, or its header line has no
  printable token, \<^verbatim>\<open>extract_applications_from_table\<close> raises and returns no record;
  \<^verbatim>\<open>main\<close> gets the same exception and selects nothing. The exception is Python's
  IndexError, raised by \<open>rows[0]\<close> or \<open>headers[0]\<close>: it is the only exception the parser
  raises on a string, and no later step of the selection raises it.\<close>

theorem malformed_table_fails:
  assumes "length (split_crlf output) < 2 \<or> header_labels (hd (split_crlf output)) = []"
  shows "extract_applications_from_table output = Inl IndexError \<and>
         main_apps_to_upgrade output level unknowns = Inl IndexError"
proof -
  have "extract_applications_from_table output = Inl IndexError"
  proof (cases "take (length (split_crlf output) - 2) (split_crlf output)")
    case Nil
    show ?thesis unfolding extract_unfold Nil by simp
  next
    case (Cons header_row rest)
    note H = take_rows_head[OF Cons]
    with assms have "header_labels header_row = []" by auto
    from get_headers_fail[OF this] show ?thesis unfolding extract_unfold Cons by simp
  qed
  then show ?thesis by (simp add: main_apps_to_upgrade_def)
qed

theorem malformed_table_fails_witness:
  "(length (split_crlf example_table_blank_header) < 2 \<or>
    header_labels (hd (split_crlf example_table_blank_header)) = []) \<and>
   extract_applications_from_table example_table_blank_header = Inl IndexError \<and>
   main_apps_to_upgrade example_table_blank_header ''patch'' False = Inl IndexError"
proof -
  have "header_labels (hd (split_crlf example_table_blank_header)) = []" by code_simp
  then have h: "length (split_crlf example_table_blank_header) < 2 \<or>
    header_labels (hd (split_crlf example_table_blank_header)) = []" by (rule disjI2)
  from malformed_table_fails[OF h, of "''patch''" False] h show ?thesis by (intro conjI) simp_all
qed

section \<open>The parser: keys of a record\<close>

text \<open>
  Claim C6, as amended. When the labels of the header line are pairwise distinct, every
  record the parser returns has exactly these labels as its keys, in the order of the
  header line. A record is a dictionary, so a label that occurs twice gives one key:
  the counterexample has the two labels \<open>A\<close>, \<open>A\<close> and records with the single key \<open>A\<close>.\<close>

theorem record_keys_are_header_labels:
  assumes "extract_applications_from_table output = Inr records"
    and "r \<in> set records"
    and "distinct (header_labels (hd (split_crlf output)))"
  shows "keys r = header_labels (hd (split_crlf output))"
proof -
  from extract_records[OF assms(1)] assms(2) obtain hps row where
    hps: "get_headers_and_their_starting_positions [hd (split_crlf output)] = Inr hps" and
    r: "r = fill_record hps row []"
    by auto
  from get_headers_labels(1)[OF hps] assms(3) have "distinct (keys [] @ map fst hps)"
    by (simp add: keys_def)
  from keys_fill_record[OF this] r get_headers_labels(1)[OF hps] show ?thesis
    by (simp add: keys_def)
qed

theorem record_keys_are_header_labels_witness:
  "extract_applications_from_table example_table_semver
     = Inr [[(''Name'', StrV ''Foo''), (''Id'', StrV ''Foo.Foo''), (''Version'', StrV ''1.0.0''),
             (''Available'', StrV ''1.1.0''), (''Source'', StrV ''winget'')]] \<and>
   distinct (header_labels (hd (split_crlf example_table_semver))) \<and>
   keys [(''Name'', StrV ''Foo''), (''Id'', StrV ''Foo.Foo''), (''Version'', StrV ''1.0.0''),
         (''Available'', StrV ''1.1.0''), (''Source'', StrV ''winget'')]
     = header_labels (hd (split_crlf example_table_semver))"
proof -
  have run: "extract_applications_from_table example_table_semver
     = Inr [[(''Name'', StrV ''Foo''), (''Id'', StrV ''Foo.Foo''), (''Version'', StrV ''1.0.0''),
             (''Available'', StrV ''1.1.0''), (''Source'', StrV ''winget'')]]"
    by code_simp
  have d: "distinct (header_labels (hd (split_crlf example_table_semver)))" by code_simp
  from record_keys_are_header_labels[OF run _ d] run d show ?thesis by simp
qed

theorem repeated_label_counterexample:
  "header_labels (hd (split_crlf example_table_repeated_label)) = [''A'', ''A''] \<and>
   extract_applications_from_table example_table_repeated_label = Inr [[(''A'', StrV ''x y'')]]"
  by code_simp

section \<open>The parser: rows\<close>

text \<open>
  Claim C9, as amended. For a text that splits at CR LF into a header line with at
  least one printable label, a separator line, the data lines and two more lines, the
  parser returns one record per data line, in the order of the data lines, each built
  from its line alone. When the start offsets of the header are in non-decreasing order,
  a data line shorter than the start offset of a column has the empty string in that
  column and in every column after it. The offsets are those of \<^verbatim>\<open>str.find\<close>, the first
  occurrence of the label's text in the header line: in the counterexample the label \<open>b\<close>
  is found inside \<open>Ab\<close>, its offset is 1, and the line \<open>xyz\<close>, shorter than the offset 5 of
  \<open>Name\<close>, has \<open>yz\<close> in the last column.\<close>

theorem rows_parsed_in_order:
  assumes "split_crlf output = header # separator # data @ [t1, t2]"
    and "header_labels header \<noteq> []"
  shows "\<exists>hps. get_headers_and_their_starting_positions [header] = Inr hps \<and>
           extract_applications_from_table output
             = Inr (map (\<lambda>row. fill_record hps row []) data) \<and>
           (sorted (map snd hps) \<longrightarrow>
              (\<forall>row\<in>set data. \<forall>i j. i \<le> j \<and> j < length hps \<and> int (length row) < snd (hps ! i)
                 \<longrightarrow> map_of (fill_record hps row []) (fst (hps ! j)) = Some (StrV [])))"
proof -
  from get_headers_ok[OF assms(2)] obtain hps where
    hps: "get_headers_and_their_starting_positions [header] = Inr hps" by blast
  have t: "take (length (split_crlf output) - 2) (split_crlf output) = header # separator # data"
    unfolding assms(1) by simp
  have e: "extract_applications_from_table output = Inr (map (\<lambda>row. fill_record hps row []) data)"
    unfolding extract_unfold t using hps by simp
  have "\<forall>row\<in>set data. \<forall>i j. i \<le> j \<and> j < length hps \<and> int (length row) < snd (hps ! i)
                 \<longrightarrow> map_of (fill_record hps row []) (fst (hps ! j)) = Some (StrV [])"
    if "sorted (map snd hps)"
    using short_row_columns_empty[OF that] by blast
  with hps e show ?thesis by blast
qed

theorem rows_parsed_in_order_witness:
  "split_crlf example_table_short_row
     = ''Name Id      Version Available Source'' # ''---------------------------------------'' #
       [''Foo  Foo.Foo 1.0.0   1.1.0     winget'', ''Bar  Bar.Bar'']
       @ [''2 upgrades available.'', []] \<and>
   header_labels ''Name Id      Version Available Source'' \<noteq> [] \<and>
   get_headers_and_their_starting_positions [''Name Id      Version Available Source'']
     = Inr [(''Name'', 0), (''Id'', 5), (''Version'', 13), (''Available'', 21), (''Source'', 31)] \<and>
   extract_applications_from_table example_table_short_row
     = Inr [[(''Name'', StrV ''Foo''), (''Id'', StrV ''Foo.Foo''), (''Version'', StrV ''1.0.0''),
             (''Available'', StrV ''1.1.0''), (''Source'', StrV ''winget'')],
            [(''Name'', StrV ''Bar''), (''Id'', StrV ''Bar.Bar''), (''Version'', StrV []),
             (''Available'', StrV []), (''Source'', StrV [])]] \<and>
   map_of (fill_record
             [(''Name'', 0), (''Id'', 5), (''Version'', 13), (''Available'', 21), (''Source'', 31)]
             ''Bar  Bar.Bar'' []) ''Source'' = Some (StrV [])"
proof -
  let ?h = "''Name Id      Version Available Source''"
  let ?hps = "[(''Name'', 0), (''Id'', 5), (''Version'', 13), (''Available'', 21), (''Source'', 31)]
                :: (string \<times> int) list"
  have s: "split_crlf example_table_short_row
     = ?h # ''---------------------------------------'' #
       [''Foo  Foo.Foo 1.0.0   1.1.0     winget'', ''Bar  Bar.Bar'']
       @ [''2 upgrades available.'', []]"
    by code_simp
  have l: "header_labels ?h \<noteq> []" by code_simp
  have g: "get_headers_and_their_starting_positions [?h] = Inr ?hps" by code_simp
  have f: "map (\<lambda>row. fill_record ?hps row [])
             [''Foo  Foo.Foo 1.0.0   1.1.0     winget'', ''Bar  Bar.Bar'']
     = [[(''Name'', StrV ''Foo''), (''Id'', StrV ''Foo.Foo''), (''Version'', StrV ''1.0.0''),
             (''Available'', StrV ''1.1.0''), (''Source'', StrV ''winget'')],
            [(''Name'', StrV ''Bar''), (''Id'', StrV ''Bar.Bar''), (''Version'', StrV []),
             (''Available'', StrV []), (''Source'', StrV [])]]"
    by code_simp
  have so: "sorted (map snd ?hps)" by simp
  from rows_parsed_in_order[OF s l] obtain hps where
    h: "get_headers_and_their_starting_positions [?h] = Inr hps" and
    e: "extract_applications_from_table example_table_short_row
          = Inr (map (\<lambda>row. fill_record hps row [])
                   [''Foo  Foo.Foo 1.0.0   1.1.0     winget'', ''Bar  Bar.Bar''])" and
    c: "sorted (map snd hps) \<longrightarrow>
          (\<forall>row\<in>set [''Foo  Foo.Foo 1.0.0   1.1.0     winget'', ''Bar  Bar.Bar''].
             \<forall>i j. i \<le> j \<and> j < length hps \<and> int (length row) < snd (hps ! i)
                 \<longrightarrow> map_of (fill_record hps row []) (fst (hps ! j)) = Some (StrV []))"
    by blast
  from h g have hps: "hps = ?hps" by simp
  have r: "''Bar  Bar.Bar'' \<in> set [''Foo  Foo.Foo 1.0.0   1.1.0     winget'', ''Bar  Bar.Bar'']"
    by simp
  have ij: "(2::nat) \<le> 4 \<and> 4 < length ?hps \<and> int (length ''Bar  Bar.Bar'') < snd (?hps ! 2)"
    by simp
  from c[unfolded hps, rule_format, OF so r ij]
  have m: "map_of (fill_record ?hps ''Bar  Bar.Bar'' []) ''Source'' = Some (StrV [])"
    by simp
  from e[unfolded hps f] s l g m show ?thesis by (intro conjI)
qed

theorem label_inside_earlier_label_counterexample:
  "get_headers_and_their_starting_positions [''Ab   Name  Version  b'']
     = Inr [(''Ab'', 0), (''Name'', 5), (''Version'', 11), (''b'', 1)] \<and>
   extract_applications_from_table example_table_label_inside
     = Inr [[(''Ab'', StrV ''xyz''), (''Name'', StrV []), (''Version'', StrV []),
             (''b'', StrV ''yz'')]]"
  by code_simp

end
